theory Spec2Isabelle
  imports Complex_Main "HOL-Library.Multiset" "HOL-Library.Log_Nat"
begin

section \<open>Python values used by the checker and the solver scripts\<close>

text \<open>
  The exceptions the modelled code can raise. \<open>SolverError\<close> stands for any exception
  thrown by the external ILP library while it optimises. \<open>NotModelled\<close> is no exception of
  the program: it marks a run that reaches a numpy conversion whose result depends on the
  numpy version (a quantity in the range of \<open>uint64\<close> but not of \<open>int64\<close>, or a Python
  integer outside \<open>int64\<close> met by a numpy scalar); nothing is stated about such runs.
\<close>

datatype py_error = IndexError | KeyError | ZeroDivisionError | TypeError | SolverError | NotModelled

text \<open>
  A parsed order or aisle is a Python \<open>dict\<close> from item id to quantity. It is kept as
  an association list in insertion order; a Python dict has no repeated key, which is the
  predicate \<open>dict_ok\<close>. Quantities and item ids are Python integers (unbounded).
\<close>

type_synonym pydict = "(int \<times> int) list"

definition dict_ok :: "pydict \<Rightarrow> bool" where
  "dict_ok d = distinct (map fst d)"

definition dict_keys :: "pydict \<Rightarrow> int list" where
  "dict_keys d = map fst d"

definition dict_values :: "pydict \<Rightarrow> int list" where
  "dict_values d = map snd d"

definition dict_get :: "pydict \<Rightarrow> int \<Rightarrow> int \<Rightarrow> int" where
  "dict_get d k dflt = (case map_of d k of None \<Rightarrow> dflt | Some v \<Rightarrow> v)"

text \<open>
  \<open>xs[i]\<close> on a Python list: an index in \<open>[-len, 0)\<close> counts from the end, anything
  outside \<open>[-len, len)\<close> raises \<open>IndexError\<close>.
\<close>

definition list_item :: "'a list \<Rightarrow> int \<Rightarrow> py_error + 'a" where
  "list_item xs i =
     (if 0 \<le> i \<and> i < int (length xs) then Inr (xs ! nat i)
      else if i < 0 \<and> - int (length xs) \<le> i then Inr (xs ! nat (int (length xs) + i))
      else Inl IndexError)"

text \<open>
  The accumulator \<open>total_units_picked\<close> starts as the Python integer \<open>0\<close> and takes the
  type of what is added to it: \<open>np.sum\<close> of a list of integers that fit 64 bits is an
  \<open>np.int64\<close>, whose arithmetic wraps around; \<open>np.sum\<close> of an empty list is the
  \<open>np.float64\<close> \<open>0.0\<close>, and a sum with a float64 is a float64, rounded to 53 significant
  bits; \<open>np.sum\<close> of a list holding an integer beyond 64 bits is an exact Python integer.
  A float64 is kept by its (integral) value. The default integer type of numpy is taken
  to be \<open>int64\<close>, as it is on 64-bit Linux and macOS.
\<close>

datatype number = PyInt int | NpInt64 int | NpFloat64 int

fun num_val :: "number \<Rightarrow> int" where
  "num_val (PyInt a) = a"
| "num_val (NpInt64 a) = a"
| "num_val (NpFloat64 a) = a"

fun is_py :: "number \<Rightarrow> bool" where
  "is_py (PyInt a) = True"
| "is_py (NpInt64 a) = False"
| "is_py (NpFloat64 a) = False"

fun is_f64 :: "number \<Rightarrow> bool" where
  "is_f64 (PyInt a) = False"
| "is_f64 (NpInt64 a) = False"
| "is_f64 (NpFloat64 a) = True"

definition in_int64 :: "int \<Rightarrow> bool" where
  "in_int64 v = (- (2 ^ 63) \<le> v \<and> v < 2 ^ 63)"

text \<open>Two's complement wrap-around of a 64-bit signed integer.\<close>

definition wrap64 :: "int \<Rightarrow> int" where
  "wrap64 v = (v + 2 ^ 63) mod 2 ^ 64 - 2 ^ 63"

text \<open>
  The double nearest to an integer, ties to even: integers below \<open>2^53\<close> in absolute value
  are doubles; a larger one keeps its 53 leading bits. (Overflow to infinity, beyond
  \<open>2^1024\<close>, is left out.)
\<close>

definition round_double :: "int \<Rightarrow> int" where
  "round_double v =
     (if \<bar>v\<bar> < 2 ^ 53 then v
      else (let e = nat (bitlen \<bar>v\<bar> - 53);
                m = \<bar>v\<bar> div 2 ^ e;
                r = \<bar>v\<bar> mod 2 ^ e;
                m' = (if 2 * r > 2 ^ e \<or> (2 * r = 2 ^ e \<and> odd m) then m + 1 else m)
            in sgn v * m' * 2 ^ e))"

text \<open>\<open>np.sum(list(d.values()))\<close>, by the dtype numpy gives the list.\<close>

definition np_sum :: "int list \<Rightarrow> py_error + number" where
  "np_sum vs =
     (if vs = [] then Inr (NpFloat64 0)
      else if list_all in_int64 vs then Inr (NpInt64 (wrap64 (sum_list vs)))
      else if list_ex (\<lambda>v. v < - (2 ^ 63) \<or> 2 ^ 64 \<le> v) vs then Inr (PyInt (sum_list vs))
      else Inl NotModelled)"

text \<open>
  \<open>total_units_picked += s\<close>: Python integers add exactly; a Python integer that fits 64
  bits is taken into the other operand's numpy type; int64 addition wraps; an addition
  with a float64 converts both operands to doubles and rounds the sum.
\<close>

definition np_add :: "number \<Rightarrow> number \<Rightarrow> py_error + number" where
  "np_add a b =
     (if is_py a \<and> is_py b then Inr (PyInt (num_val a + num_val b))
      else if (is_py a \<and> \<not> in_int64 (num_val a)) \<or> (is_py b \<and> \<not> in_int64 (num_val b))
      then Inl NotModelled
      else if is_f64 a \<or> is_f64 b
      then Inr (NpFloat64 (round_double (round_double (num_val a) + round_double (num_val b))))
      else Inr (NpInt64 (wrap64 (num_val a + num_val b))))"

text \<open>
  \<open>lb <= total\<close> and \<open>total <= ub\<close> with Python integer bounds: exact against a Python
  integer or an int64; against a float64 the bound is converted to a double first.
\<close>

definition int_le_num :: "int \<Rightarrow> number \<Rightarrow> bool" where
  "int_le_num b t = (if is_f64 t then round_double b \<le> num_val t else b \<le> num_val t)"

definition num_le_int :: "number \<Rightarrow> int \<Rightarrow> bool" where
  "num_le_int t b = (if is_f64 t then num_val t \<le> round_double b else num_val t \<le> b)"

text \<open>
  A Python float result; finite values are kept as exact quotients (rounding to a double
  is outside the model).
\<close>

datatype pyfloat = Fin real | PosInf | NegInf | NaN

text \<open>
  \<open>total / n\<close> with \<open>n = len(visited_aisles)\<close>: a Python integer divided by zero raises
  \<open>ZeroDivisionError\<close>; a numpy scalar divided by zero returns \<open>inf\<close>, \<open>-inf\<close> or \<open>nan\<close>
  (with a warning only).
\<close>

definition true_div :: "number \<Rightarrow> nat \<Rightarrow> py_error + pyfloat" where
  "true_div t n =
     (if n \<noteq> 0 then Inr (Fin (real_of_int (num_val t) / real n))
      else if is_py t then Inl ZeroDivisionError
      else if 0 < num_val t then Inr PosInf
      else if num_val t < 0 then Inr NegInf
      else Inr NaN)"

section \<open>The checker: class WaveOrderPicking\<close>

record WaveOrderPicking =
  orders :: "pydict list"
  aisles :: "pydict list"
  wave_size_lb :: int
  wave_size_ub :: int

text \<open>
  \<open>read_output\<close> ends with \<open>list(set(selected_orders))\<close>: the indices without
  repetition, in the iteration order of a Python set, which the language leaves open.
  The model keeps the first occurrences in reading order.
\<close>

definition list_of_set :: "int list \<Rightarrow> int list" where
  "list_of_set xs = remdups xs"

text \<open>
  The loop \<open>for order in selected_orders: total_units_picked += np.sum(list(self.orders[order].values()))\<close>,
  shared by both methods.
\<close>

fun picked_loop :: "pydict list \<Rightarrow> int list \<Rightarrow> number \<Rightarrow> py_error + number" where
  "picked_loop os [] t = Inr t"
| "picked_loop os (i # is) t =
     (case list_item os i of
        Inl e \<Rightarrow> Inl e
      | Inr d \<Rightarrow>
          (case np_sum (dict_values d) of
             Inl e \<Rightarrow> Inl e
           | Inr s \<Rightarrow>
               (case np_add t s of
                  Inl e \<Rightarrow> Inl e
                | Inr t' \<Rightarrow> picked_loop os is t')))"

text \<open>
  The loop \<open>for order in selected_orders: required_items.update(self.orders[order].keys())\<close>.
  The Python set is kept as a list without repetition.
\<close>

fun required_loop :: "pydict list \<Rightarrow> int list \<Rightarrow> int list \<Rightarrow> py_error + int list" where
  "required_loop os [] acc = Inr acc"
| "required_loop os (i # is) acc =
     (case list_item os i of
        Inl e \<Rightarrow> Inl e
      | Inr d \<Rightarrow> required_loop os is (fold List.insert (dict_keys d) acc))"

text \<open>\<open>sum(ds[j].get(item, 0) for j in sel)\<close> with Python's exact integers.\<close>

fun sum_get :: "pydict list \<Rightarrow> int list \<Rightarrow> int \<Rightarrow> py_error + int" where
  "sum_get ds [] item = Inr 0"
| "sum_get ds (j # js) item =
     (case list_item ds j of
        Inl e \<Rightarrow> Inl e
      | Inr d \<Rightarrow> (case sum_get ds js item of
                   Inl e \<Rightarrow> Inl e
                 | Inr s \<Rightarrow> Inr (dict_get d item 0 + s)))"

text \<open>The loop \<open>for item in required_items\<close> with its early \<open>return False\<close>.\<close>

fun item_loop :: "WaveOrderPicking \<Rightarrow> int list \<Rightarrow> int list \<Rightarrow> int list \<Rightarrow> py_error + bool" where
  "item_loop w sel vis [] = Inr True"
| "item_loop w sel vis (item # items) =
     (case sum_get (orders w) sel item of
        Inl e \<Rightarrow> Inl e
      | Inr total_required \<Rightarrow>
          (case sum_get (aisles w) vis item of
             Inl e \<Rightarrow> Inl e
           | Inr total_available \<Rightarrow>
               if total_required > total_available then Inr False
               else item_loop w sel vis items))"

definition is_solution_feasible :: "WaveOrderPicking \<Rightarrow> int list \<Rightarrow> int list \<Rightarrow> py_error + bool" where
  "is_solution_feasible w selected_orders visited_aisles =
     (case picked_loop (orders w) selected_orders (PyInt 0) of
        Inl e \<Rightarrow> Inl e
      | Inr total_units_picked \<Rightarrow>
          if \<not> (int_le_num (wave_size_lb w) total_units_picked
                \<and> num_le_int total_units_picked (wave_size_ub w))
          then Inr False
          else (case required_loop (orders w) selected_orders [] of
                  Inl e \<Rightarrow> Inl e
                | Inr required_items \<Rightarrow>
                    item_loop w selected_orders visited_aisles required_items))"

definition compute_objective_function :: "WaveOrderPicking \<Rightarrow> int list \<Rightarrow> int list \<Rightarrow> py_error + pyfloat" where
  "compute_objective_function w selected_orders visited_aisles =
     (case picked_loop (orders w) selected_orders (PyInt 0) of
        Inl e \<Rightarrow> Inl e
      | Inr total_units_picked \<Rightarrow> true_div total_units_picked (length visited_aisles))"

text \<open>The instance of the specification's scenario A.\<close>

definition scenario_A :: WaveOrderPicking where
  "scenario_A = \<lparr> orders = [[(0, 3)], [(0, 2), (1, 2)]],
                   aisles = [[(0, 5)], [(1, 2)]],
                   wave_size_lb = 2, wave_size_ub = 5 \<rparr>"

text \<open>
  An instance whose single order holds \<open>2^62\<close> units of each of two items, with wave
  bounds 0 and \<open>2^63\<close>.
\<close>

definition big_instance :: WaveOrderPicking where
  "big_instance = \<lparr> orders = [[(0, 2 ^ 62), (1, 2 ^ 62)]],
                     aisles = [[(0, 2 ^ 62), (1, 2 ^ 62)]],
                     wave_size_lb = 0, wave_size_ub = 2 ^ 63 \<rparr>"

section \<open>The validator on index sets, as the specification words it\<close>

text \<open>
  The entity a Python index denotes once it is known to be valid, and the validity test
  itself; both restate \<open>list_item\<close>.
\<close>

definition valid_index :: "'a list \<Rightarrow> int \<Rightarrow> bool" where
  "valid_index xs i = (- int (length xs) \<le> i \<and> i < int (length xs))"

definition py_nth :: "'a list \<Rightarrow> int \<Rightarrow> 'a" where
  "py_nth xs i = xs ! nat (if i < 0 then int (length xs) + i else i)"

text \<open>\<open>total_units(order)\<close> of the specification: the sum of the order's quantities.\<close>

definition units_of :: "pydict \<Rightarrow> int" where
  "units_of d = sum_list (dict_values d)"

text \<open>
  An index set of the specification's data model, given as a list: no index twice, every
  index in \<open>[0, |xs|)\<close>.
\<close>

definition index_set :: "'a list \<Rightarrow> int list \<Rightarrow> bool" where
  "index_set xs sel = (distinct sel \<and> list_all (\<lambda>i. 0 \<le> i \<and> i < int (length xs)) sel)"

definition units_picked :: "WaveOrderPicking \<Rightarrow> int set \<Rightarrow> int" where
  "units_picked w S = (\<Sum>j\<in>S. units_of (py_nth (orders w) j))"

definition total_demand :: "WaveOrderPicking \<Rightarrow> int set \<Rightarrow> int \<Rightarrow> int" where
  "total_demand w S item = (\<Sum>j\<in>S. dict_get (py_nth (orders w) j) item 0)"

definition total_supply :: "WaveOrderPicking \<Rightarrow> int set \<Rightarrow> int \<Rightarrow> int" where
  "total_supply w A item = (\<Sum>a\<in>A. dict_get (py_nth (aisles w) a) item 0)"

definition items_of :: "WaveOrderPicking \<Rightarrow> int set \<Rightarrow> int set" where
  "items_of w S = (\<Union>j\<in>S. set (dict_keys (py_nth (orders w) j)))"

text \<open>The two conditions of the specification's feasibility test, on index sets.\<close>

definition claimed_feasible :: "WaveOrderPicking \<Rightarrow> int set \<Rightarrow> int set \<Rightarrow> bool" where
  "claimed_feasible w S A =
     ((wave_size_lb w \<le> units_picked w S \<and> units_picked w S \<le> wave_size_ub w)
      \<and> (\<forall>item\<in>items_of w S. total_demand w S item \<le> total_supply w A item))"

text \<open>
  The range in which the numpy arithmetic of the checker is exact: the absolute values of
  all quantities of the selected orders (those with a valid index) sum to less than
  \<open>2^53\<close>, so that no int64 sum wraps and no float64 sum is rounded, and the wave bounds
  are below \<open>2^53\<close> in absolute value, so that they are doubles.
\<close>

definition abs_units :: "pydict \<Rightarrow> int" where
  "abs_units d = sum_list (map abs (dict_values d))"

definition exact_sums :: "WaveOrderPicking \<Rightarrow> int list \<Rightarrow> bool" where
  "exact_sums w sel =
     ((\<Sum>i\<leftarrow>filter (valid_index (orders w)) sel. abs_units (py_nth (orders w) i)) < 2 ^ 53)"

definition exact_range :: "WaveOrderPicking \<Rightarrow> int list \<Rightarrow> bool" where
  "exact_range w sel =
     (exact_sums w sel \<and> \<bar>wave_size_lb w\<bar> < 2 ^ 53 \<and> \<bar>wave_size_ub w\<bar> < 2 ^ 53)"

text \<open>
  What the two methods compute in the exact range when their arguments are read as sets
  of indices, exceptions included: an invalid order index always raises; an invalid aisle
  index raises only when the availability loop runs at least once.
\<close>

definition feasible_on_sets :: "WaveOrderPicking \<Rightarrow> int set \<Rightarrow> int set \<Rightarrow> py_error + bool" where
  "feasible_on_sets w S A =
     (if \<not> (\<forall>j\<in>S. valid_index (orders w) j) then Inl IndexError
      else if \<not> (wave_size_lb w \<le> units_picked w S \<and> units_picked w S \<le> wave_size_ub w)
      then Inr False
      else if items_of w S = {} then Inr True
      else if \<not> (\<forall>a\<in>A. valid_index (aisles w) a) then Inl IndexError
      else Inr (\<forall>item\<in>items_of w S. total_demand w S item \<le> total_supply w A item))"

definition objective_on_sets :: "WaveOrderPicking \<Rightarrow> int set \<Rightarrow> int set \<Rightarrow> py_error + pyfloat" where
  "objective_on_sets w S A =
     (if \<not> (\<forall>j\<in>S. valid_index (orders w) j) then Inl IndexError
      else true_div (if S = {} then PyInt 0 else NpInt64 (units_picked w S)) (card A))"

section \<open>The solver scripts: incidence index and formulation\<close>

text \<open>
  \<open>read_instance\<close> returns \<open>(orders, aisles, n_items, wave_size_lb, wave_size_ub)\<close>.
\<close>

record wave_instance = WaveOrderPicking +
  n_items :: int

text \<open>\<open>range(n)\<close> for a Python integer \<open>n\<close>; empty when \<open>n \<le> 0\<close>.\<close>

definition py_range :: "int \<Rightarrow> int list" where
  "py_range n = map int [0..<nat n]"

text \<open>\<open>total_units = [sum(order.values()) for order in orders]\<close>\<close>

definition total_units :: "pydict list \<Rightarrow> int list" where
  "total_units os = map (\<lambda>order. sum_list (dict_values order)) os"

text \<open>
  \<open>item_to_orders\<close> and \<open>item_to_aisles\<close>: dictionaries from item id to a list of
  \<open>(entity, quantity)\<close> pairs, created with the keys \<open>range(n_items)\<close>. Appending under
  an item id that is not a key raises \<open>KeyError\<close>.
\<close>

type_synonym incidence = "int \<rightharpoonup> (nat \<times> int) list"

definition empty_index :: "int \<Rightarrow> incidence" where
  "empty_index n = (\<lambda>i. if 0 \<le> i \<and> i < n then Some [] else None)"

fun append_entries :: "nat \<Rightarrow> pydict \<Rightarrow> incidence \<Rightarrow> py_error + incidence" where
  "append_entries e [] m = Inr m"
| "append_entries e ((i, qty) # d) m =
     (case m i of
        None \<Rightarrow> Inl KeyError
      | Some l \<Rightarrow> append_entries e d (m(i \<mapsto> l @ [(e, qty)])))"

fun index_loop :: "nat \<Rightarrow> pydict list \<Rightarrow> incidence \<Rightarrow> py_error + incidence" where
  "index_loop e [] m = Inr m"
| "index_loop e (d # ds) m =
     (case append_entries e d m of
        Inl x \<Rightarrow> Inl x
      | Inr m' \<Rightarrow> index_loop (Suc e) ds m')"

definition build_index :: "int \<Rightarrow> pydict list \<Rightarrow> py_error + incidence" where
  "build_index n ds = index_loop 0 ds (empty_index n)"

text \<open>
  The integer program handed to the external library: binary variables \<open>x[o]\<close> and
  \<open>y[a]\<close>, linear expressions as lists of \<open>coefficient * variable\<close> terms, named
  constraints in the order they are added, and an objective with its direction.
\<close>

datatype var = X nat | Y nat

type_synonym linexpr = "(int \<times> var) list"

datatype cname = WaveLB | WaveUB | Availability int | AisleLimit

datatype constr = GeConst linexpr int | LeConst linexpr int | LeExpr linexpr linexpr

datatype sense = Maximize | Minimize

record ilp =
  constraints :: "(cname \<times> constr) list"
  objective :: linexpr
  direction :: sense

text \<open>\<open>quicksum(total_units[o] * x[o] for o in range(len(orders)))\<close>\<close>

definition units_expr :: "pydict list \<Rightarrow> linexpr" where
  "units_expr os = map (\<lambda>j. (total_units os ! j, X j)) [0..<length os]"

text \<open>\<open>quicksum(y[a] for a in range(len(aisles)))\<close>\<close>

definition aisle_count_expr :: "pydict list \<Rightarrow> linexpr" where
  "aisle_count_expr as = map (\<lambda>a. (1, Y a)) [0..<length as]"

text \<open>\<open>quicksum(u_oi * x[o] for o, u_oi in item_to_orders[i])\<close> and its aisle twin.\<close>

definition demand_expr :: "(nat \<times> int) list \<Rightarrow> linexpr" where
  "demand_expr l = map (\<lambda>(j, u_oi). (u_oi, X j)) l"

definition supply_expr :: "(nat \<times> int) list \<Rightarrow> linexpr" where
  "supply_expr l = map (\<lambda>(a, u_ai). (u_ai, Y a)) l"

text \<open>
  The loop \<open>for i in range(n_items): if item_to_orders[i]: ...\<close>, returning the
  constraints it adds.
\<close>

fun availability_loop :: "incidence \<Rightarrow> incidence \<Rightarrow> int list \<Rightarrow> py_error + (cname \<times> constr) list" where
  "availability_loop ito ita [] = Inr []"
| "availability_loop ito ita (i # is) =
     (case ito i of
        None \<Rightarrow> Inl KeyError
      | Some lo \<Rightarrow>
          if lo \<noteq> [] then
            (case ita i of
               None \<Rightarrow> Inl KeyError
             | Some la \<Rightarrow>
                 (case availability_loop ito ita is of
                    Inl e \<Rightarrow> Inl e
                  | Inr cs \<Rightarrow> Inr ((Availability i, LeExpr (demand_expr lo) (supply_expr la)) # cs)))
          else availability_loop ito ita is)"

text \<open>
  The model with the aisle limit \<open>b\<close>. The gurobi scripts build it once with \<open>b = 1\<close> and
  then overwrite the right-hand side of \<open>AisleLimit\<close> before each optimisation; the pulp
  script builds a fresh model with \<open>b = k\<close> in every iteration.
\<close>

definition build_model :: "wave_instance \<Rightarrow> incidence \<Rightarrow> incidence \<Rightarrow> int \<Rightarrow> py_error + ilp" where
  "build_model inst item_to_orders item_to_aisles b =
     (case availability_loop item_to_orders item_to_aisles (py_range (n_items inst)) of
        Inl e \<Rightarrow> Inl e
      | Inr avail \<Rightarrow>
          Inr \<lparr> constraints =
                  [(WaveLB, GeConst (units_expr (orders inst)) (wave_size_lb inst)),
                   (WaveUB, LeConst (units_expr (orders inst)) (wave_size_ub inst))]
                  @ avail
                  @ [(AisleLimit, LeConst (aisle_count_expr (aisles inst)) b)],
                objective = units_expr (orders inst),
                direction = Maximize \<rparr>)"

text \<open>\<open>aisle_constr.setAttr(GRB.Attr.RHS, k)\<close>\<close>

fun set_rhs :: "int \<Rightarrow> constr \<Rightarrow> constr" where
  "set_rhs k (GeConst e b) = GeConst e k"
| "set_rhs k (LeConst e b) = LeConst e k"
| "set_rhs k (LeExpr l r) = LeExpr l r"

definition set_aisle_limit :: "int \<Rightarrow> ilp \<Rightarrow> ilp" where
  "set_aisle_limit k m =
     m\<lparr>constraints := map (\<lambda>(n, c). if n = AisleLimit then (n, set_rhs k c) else (n, c))
                           (constraints m)\<rparr>"

text \<open>
  The formulation optimised at budget \<open>k\<close>, from the instance alone: the index is built,
  then the model. \<open>formulation_gurobi\<close> follows \<open>challenge-sbpo-2025/math_solve.py\<close> and
  \<open>math_solve (gurobi).py\<close>, \<open>formulation_pulp\<close> follows \<open>math_solve (pulp).py\<close>.
\<close>

definition with_indices :: "wave_instance \<Rightarrow> (incidence \<Rightarrow> incidence \<Rightarrow> py_error + 'a) \<Rightarrow> py_error + 'a" where
  "with_indices inst f =
     (case build_index (n_items inst) (orders inst) of
        Inl e \<Rightarrow> Inl e
      | Inr item_to_orders \<Rightarrow>
          (case build_index (n_items inst) (aisles inst) of
             Inl e \<Rightarrow> Inl e
           | Inr item_to_aisles \<Rightarrow> f item_to_orders item_to_aisles))"

definition formulation_gurobi :: "wave_instance \<Rightarrow> nat \<Rightarrow> py_error + ilp" where
  "formulation_gurobi inst k =
     with_indices inst (\<lambda>ito ita.
       case build_model inst ito ita 1 of
         Inl e \<Rightarrow> Inl e
       | Inr m \<Rightarrow> Inr (set_aisle_limit (int k) m))"

definition formulation_pulp :: "wave_instance \<Rightarrow> nat \<Rightarrow> py_error + ilp" where
  "formulation_pulp inst k = with_indices inst (\<lambda>ito ita. build_model inst ito ita (int k))"

section \<open>The formulation as the specification words it\<close>

text \<open>
  The \<open>(entity, quantity)\<close> pairs of item \<open>i\<close>, read off the dictionaries directly;
  entities are numbered from \<open>e\<close>.
\<close>

fun incidence_from :: "nat \<Rightarrow> pydict list \<Rightarrow> int \<Rightarrow> (nat \<times> int) list" where
  "incidence_from e [] i = []"
| "incidence_from e (d # ds) i =
     map (\<lambda>(i', qty). (e, qty)) (filter (\<lambda>(i', qty). i' = i) d) @ incidence_from (Suc e) ds i"

definition demanded :: "pydict list \<Rightarrow> int \<Rightarrow> bool" where
  "demanded os i = list_ex (\<lambda>d. i \<in> set (dict_keys d)) os"

definition items_in_range :: "int \<Rightarrow> pydict list \<Rightarrow> bool" where
  "items_in_range n ds = list_all (\<lambda>d. list_all (\<lambda>i. 0 \<le> i \<and> i < n) (dict_keys d)) ds"

definition spec_formulation :: "wave_instance \<Rightarrow> nat \<Rightarrow> ilp" where
  "spec_formulation inst k =
     \<lparr> constraints =
         [(WaveLB, GeConst (map (\<lambda>j. (units_of (orders inst ! j), X j)) [0..<length (orders inst)])
                     (wave_size_lb inst)),
          (WaveUB, LeConst (map (\<lambda>j. (units_of (orders inst ! j), X j)) [0..<length (orders inst)])
                     (wave_size_ub inst))]
         @ map (\<lambda>i. (Availability i,
                      LeExpr (map (\<lambda>(j, q). (q, X j)) (incidence_from 0 (orders inst) i))
                             (map (\<lambda>(a, q). (q, Y a)) (incidence_from 0 (aisles inst) i))))
               (filter (demanded (orders inst)) (py_range (n_items inst)))
         @ [(AisleLimit, LeConst (map (\<lambda>a. (1, Y a)) [0..<length (aisles inst)]) (int k))],
       objective = map (\<lambda>j. (units_of (orders inst ! j), X j)) [0..<length (orders inst)],
       direction = Maximize \<rparr>"

text \<open>
  The quantity of item \<open>i\<close> summed over the selected entities: the demand of the item over
  the selected orders, or its supply over the selected aisles.
\<close>

definition selected_quantity :: "pydict list \<Rightarrow> nat list \<Rightarrow> int \<Rightarrow> int" where
  "selected_quantity ds sel i =
     (\<Sum>j\<leftarrow>filter (\<lambda>j. j \<in> set sel) [0..<length ds]. dict_get (ds ! j) i 0)"

section \<open>The external solver and the ratio sweep\<close>

text \<open>
  What one optimisation call yields: status \<open>OPTIMAL\<close> with the reported objective value
  and the values of the variables, any other status, or an exception raised by the
  library. Floating-point values are kept as reals. The solver itself is outside the
  repository, so it is a parameter of the sweep.
\<close>

datatype solve_result = Optimal real "var \<Rightarrow> real" | NotOptimal | Raised

type_synonym solver = "ilp \<Rightarrow> solve_result"

text \<open>The lines the scripts print, without the instance name and the timings.\<close>

datatype line =
    Progress nat real real
  | NewBest real nat nat
  | NoFeasible nat
  | Concluded real
  | NotFound

record sweep_state =
  best_ratio :: real
  best_solution :: "(nat list \<times> nat list) option"
  printed :: "line list"

definition initial_state :: sweep_state where
  "initial_state = \<lparr> best_ratio = 0, best_solution = None, printed = [] \<rparr>"

text \<open>\<open>[o for o in range(len(orders)) if x[o].X > 0.5]\<close> and its aisle twin.\<close>

definition selected_orders_of :: "nat \<Rightarrow> (var \<Rightarrow> real) \<Rightarrow> nat list" where
  "selected_orders_of n_orders val = filter (\<lambda>j. val (X j) > 1 / 2) [0..<n_orders]"

definition selected_aisles_of :: "nat \<Rightarrow> (var \<Rightarrow> real) \<Rightarrow> nat list" where
  "selected_aisles_of n_aisles val = filter (\<lambda>a. val (Y a) > 1 / 2) [0..<n_aisles]"

text \<open>
  The body of \<open>if model.status == OPTIMAL\<close>, given the objective value \<open>v_k\<close> and the
  variable values.
\<close>

definition record_optimum :: "nat \<Rightarrow> nat \<Rightarrow> nat \<Rightarrow> real \<Rightarrow> (var \<Rightarrow> real) \<Rightarrow> sweep_state \<Rightarrow> sweep_state" where
  "record_optimum n_orders n_aisles k v_k val st =
     (let ratio = v_k / real k in
      if ratio > best_ratio st then
        (let selected_orders = selected_orders_of n_orders val;
             selected_aisles = selected_aisles_of n_aisles val
         in \<lparr> best_ratio = ratio,
              best_solution = Some (selected_orders, selected_aisles),
              printed = printed st @ [Progress k v_k ratio,
                                      NewBest ratio (length selected_orders) (length selected_aisles)] \<rparr>)
      else st\<lparr>printed := printed st @ [Progress k v_k ratio]\<rparr>)"

text \<open>
  The loop \<open>for k in range(1, k_max + 1)\<close> of the gurobi scripts: the retained model gets
  its aisle limit overwritten, then is optimised. An exception of the library leaves the
  function.
\<close>

fun sweep_gurobi :: "solver \<Rightarrow> nat \<Rightarrow> nat \<Rightarrow> ilp \<Rightarrow> nat list \<Rightarrow> sweep_state \<Rightarrow> py_error + sweep_state" where
  "sweep_gurobi solve n_orders n_aisles model [] st = Inr st"
| "sweep_gurobi solve n_orders n_aisles model (k # ks) st =
     (let model' = set_aisle_limit (int k) model in
      case solve model' of
        Raised \<Rightarrow> Inl SolverError
      | NotOptimal \<Rightarrow>
          sweep_gurobi solve n_orders n_aisles model' ks (st\<lparr>printed := printed st @ [NoFeasible k]\<rparr>)
      | Optimal v_k val \<Rightarrow>
          sweep_gurobi solve n_orders n_aisles model' ks
            (record_optimum n_orders n_aisles k v_k val st))"

text \<open>What a run of \<open>solve_instance\<close> leaves behind: the output file, if written, and the printed lines.\<close>

record outcome =
  output_file :: "(nat list \<times> nat list) option"
  stdout :: "line list"

text \<open>\<open>solve_instance\<close> of \<open>challenge-sbpo-2025/math_solve.py\<close>.\<close>

definition solve_instance :: "solver \<Rightarrow> wave_instance \<Rightarrow> py_error + outcome" where
  "solve_instance solve inst =
     with_indices inst (\<lambda>item_to_orders item_to_aisles.
       case build_model inst item_to_orders item_to_aisles 1 of
         Inl e \<Rightarrow> Inl e
       | Inr model \<Rightarrow>
           (case sweep_gurobi solve (length (orders inst)) (length (aisles inst)) model
                   [1..<Suc (length (aisles inst))] initial_state of
              Inl e \<Rightarrow> Inl e
            | Inr st \<Rightarrow>
                (case best_solution st of
                   Some best \<Rightarrow>
                     Inr \<lparr> output_file = Some best,
                           stdout = printed st @ [Concluded (best_ratio st)] \<rparr>
                 | None \<Rightarrow>
                     Inr \<lparr> output_file = None, stdout = printed st @ [NotFound] \<rparr>)))"

text \<open>
  The value of a linear expression under an assignment of the variables, and whether an
  assignment satisfies a constraint.
\<close>

fun eval_lin :: "(var \<Rightarrow> 'a::linordered_idom) \<Rightarrow> linexpr \<Rightarrow> 'a" where
  "eval_lin val [] = 0"
| "eval_lin val ((c, v) # e) = of_int c * val v + eval_lin val e"

fun satisfies :: "(var \<Rightarrow> 'a::linordered_idom) \<Rightarrow> constr \<Rightarrow> bool" where
  "satisfies val (GeConst e b) = (eval_lin val e \<ge> of_int b)"
| "satisfies val (LeConst e b) = (eval_lin val e \<le> of_int b)"
| "satisfies val (LeExpr l r) = (eval_lin val l \<le> eval_lin val r)"

text \<open>
  The loop of \<open>math_solve (pulp).py\<close>: a fresh model per \<open>k\<close>, and \<open>v_k\<close> computed by
  \<open>pulp.value(model.objective)\<close> from the variable values. A product \<open>0 * x[o]\<close> is an
  empty expression in pulp, so an order whose quantities are all zero (an empty order
  among them) leaves \<open>x[o]\<close> out of the problem and \<open>x[o].value()\<close> is \<open>None\<close>: reading
  the selection then raises \<open>TypeError\<close> in \<open>x[o].value() > 0.5\<close>.
\<close>

definition unused_order_variable :: "pydict list \<Rightarrow> bool" where
  "unused_order_variable os = list_ex (\<lambda>order. list_all (\<lambda>qty. qty = 0) (dict_values order)) os"

fun sweep_pulp :: "solver \<Rightarrow> wave_instance \<Rightarrow> incidence \<Rightarrow> incidence \<Rightarrow> nat list \<Rightarrow> sweep_state \<Rightarrow> py_error + sweep_state" where
  "sweep_pulp solve inst ito ita [] st = Inr st"
| "sweep_pulp solve inst ito ita (k # ks) st =
     (case build_model inst ito ita (int k) of
        Inl e \<Rightarrow> Inl e
      | Inr model \<Rightarrow>
          (case solve model of
             Raised \<Rightarrow> Inl SolverError
           | NotOptimal \<Rightarrow>
               sweep_pulp solve inst ito ita ks (st\<lparr>printed := printed st @ [NoFeasible k]\<rparr>)
           | Optimal reported val \<Rightarrow>
               (let v_k = eval_lin val (objective model) in
                if v_k / real k > best_ratio st \<and> unused_order_variable (orders inst)
                then Inl TypeError
                else sweep_pulp solve inst ito ita ks
                       (record_optimum (length (orders inst)) (length (aisles inst)) k v_k val st))))"

text \<open>
  \<open>solve_instance\<close> of \<open>math_solve/math_solve (pulp).py\<close>. (The copy of this script that
  is appended to \<open>checker.py\<close> has no final \<open>else\<close> and prints nothing there.)
\<close>

definition solve_instance_pulp :: "solver \<Rightarrow> wave_instance \<Rightarrow> py_error + outcome" where
  "solve_instance_pulp solve inst =
     with_indices inst (\<lambda>item_to_orders item_to_aisles.
       case sweep_pulp solve inst item_to_orders item_to_aisles
              [1..<Suc (length (aisles inst))] initial_state of
         Inl e \<Rightarrow> Inl e
       | Inr st \<Rightarrow>
           (case best_solution st of
              Some best \<Rightarrow>
                Inr \<lparr> output_file = Some best,
                      stdout = printed st @ [Concluded (best_ratio st)] \<rparr>
            | None \<Rightarrow> Inr \<lparr> output_file = None, stdout = printed st @ [NotFound] \<rparr>))"

section \<open>The meaning of a formulation\<close>

text \<open>
  A binary assignment is a pair of index lists: the orders with \<open>x = 1\<close> and the aisles with
  \<open>y = 1\<close>. All assignments of a model with \<open>n_orders\<close> and \<open>n_aisles\<close> variables are
  enumerated, the feasible ones kept, and the optimum is the largest objective value among
  them (none when the program is infeasible).
\<close>

fun chosen :: "nat list \<Rightarrow> nat list \<Rightarrow> var \<Rightarrow> int" where
  "chosen so sa (X j) = (if j \<in> set so then 1 else 0)"
| "chosen so sa (Y a) = (if a \<in> set sa then 1 else 0)"

definition candidates :: "nat \<Rightarrow> nat \<Rightarrow> (nat list \<times> nat list) list" where
  "candidates n_orders n_aisles = List.product (subseqs [0..<n_orders]) (subseqs [0..<n_aisles])"

definition feasible :: "ilp \<Rightarrow> nat list \<times> nat list \<Rightarrow> bool" where
  "feasible m c = list_all (\<lambda>(n, con). satisfies (chosen (fst c) (snd c)) con) (constraints m)"

definition objective_values :: "ilp \<Rightarrow> nat \<Rightarrow> nat \<Rightarrow> int list" where
  "objective_values m n_orders n_aisles =
     map (\<lambda>c. eval_lin (chosen (fst c) (snd c)) (objective m))
         (filter (feasible m) (candidates n_orders n_aisles))"

definition optimum :: "ilp \<Rightarrow> nat \<Rightarrow> nat \<Rightarrow> int option" where
  "optimum m n_orders n_aisles =
     (case objective_values m n_orders n_aisles of
        [] \<Rightarrow> None
      | v # vs \<Rightarrow> Some (fold max vs v))"

text \<open>Scenario A as the solver scripts read it, with its two items.\<close>

definition scenario_A_instance :: wave_instance where
  "scenario_A_instance = \<lparr> orders = [[(0, 3)], [(0, 2), (1, 2)]],
                            aisles = [[(0, 5)], [(1, 2)]],
                            wave_size_lb = 2, wave_size_ub = 5, n_items = 2 \<rparr>"

section \<open>Auxiliary notions for the proofs\<close>

text \<open>
  The accumulator after the first loop of the checker, in the exact range: still the
  Python integer 0 when nothing is selected, a float64 when an empty order is selected,
  an int64 otherwise.
\<close>

definition picked_total :: "pydict list \<Rightarrow> int list \<Rightarrow> number" where
  "picked_total os sel =
     (if sel = [] then PyInt 0
      else if \<exists>i\<in>set sel. dict_values (py_nth os i) = []
      then NpFloat64 (\<Sum>i\<leftarrow>sel. units_of (py_nth os i))
      else NpInt64 (\<Sum>i\<leftarrow>sel. units_of (py_nth os i)))"

text \<open>The pairs one dictionary contributes to item \<open>i\<close>, and a built index as a function.\<close>

definition entries_of :: "nat \<Rightarrow> pydict \<Rightarrow> int \<Rightarrow> (nat \<times> int) list" where
  "entries_of e d i = map (\<lambda>(i', qty). (e, qty)) (filter (\<lambda>(i', qty). i' = i) d)"

definition index_of :: "int \<Rightarrow> pydict list \<Rightarrow> incidence" where
  "index_of n ds = (\<lambda>i. if 0 \<le> i \<and> i < n then Some (incidence_from 0 ds i) else None)"

text \<open>
  The ratio and the selection that budget \<open>k\<close> yields on the retained model, if the solver
  reports an optimum there; and the budgets for which a line was printed.
\<close>

definition ratio_at :: "solver \<Rightarrow> ilp \<Rightarrow> nat \<Rightarrow> real option" where
  "ratio_at solve model k =
     (case solve (set_aisle_limit (int k) model) of
        Optimal v val \<Rightarrow> Some (v / real k)
      | NotOptimal \<Rightarrow> None
      | Raised \<Rightarrow> None)"

fun line_budget :: "line \<Rightarrow> nat option" where
  "line_budget (Progress k v r) = Some k"
| "line_budget (NoFeasible k) = Some k"
| "line_budget (NewBest r a b) = None"
| "line_budget (Concluded r) = None"
| "line_budget NotFound = None"

definition budgets_tried :: "line list \<Rightarrow> nat list" where
  "budgets_tried ls = List.map_filter line_budget ls"

text \<open>
  The invariant of the sweep: the best ratio never drops below its initial 0; a retained
  solution has a positive ratio and at least one order; every announced new best had a
  positive ratio.
\<close>

definition sweep_inv :: "sweep_state \<Rightarrow> bool" where
  "sweep_inv st =
     (0 \<le> best_ratio st
      \<and> (\<forall>so sa. best_solution st = Some (so, sa) \<longrightarrow> 0 < best_ratio st \<and> so \<noteq> [])
      \<and> (\<forall>r a b. NewBest r a b \<in> set (printed st) \<longrightarrow> 0 < r))"

text \<open>
  Two small instances with a solver behaviour for each, used to exercise the theorems.
  On \<open>tie_instance\<close> budget 1 allows one order (2 units, ratio 2) and budget 2 both orders
  (4 units, ratio 2 again); \<open>tie_solver\<close> reports these optima, reading the budget off the
  \<open>AisleLimit\<close> row. On \<open>scenario_D\<close> the lower bound exceeds all units on offer, so every
  budget is infeasible, which \<open>infeasible_solver\<close> reports.
\<close>

definition tie_instance :: wave_instance where
  "tie_instance = \<lparr> orders = [[(0, 2)], [(1, 2)]],
                     aisles = [[(0, 2)], [(1, 2)]],
                     wave_size_lb = 1, wave_size_ub = 10, n_items = 2 \<rparr>"

fun rhs_of :: "constr \<Rightarrow> int option" where
  "rhs_of (GeConst e b) = Some b"
| "rhs_of (LeConst e b) = Some b"
| "rhs_of (LeExpr l r) = None"

definition aisle_limit :: "ilp \<Rightarrow> int option" where
  "aisle_limit m = (case map_of (constraints m) AisleLimit of None \<Rightarrow> None | Some c \<Rightarrow> rhs_of c)"

definition indicator :: "nat list \<Rightarrow> nat list \<Rightarrow> var \<Rightarrow> real" where
  "indicator so sa v = real_of_int (chosen so sa v)"

definition tie_solver :: solver where
  "tie_solver m =
     (if aisle_limit m = Some 1 then Optimal 2 (indicator [0] [0])
      else if aisle_limit m = Some 2 then Optimal 4 (indicator [0, 1] [0, 1])
      else NotOptimal)"

definition scenario_D :: wave_instance where
  "scenario_D = \<lparr> orders = [[(0, 3)], [(0, 2), (1, 2)]],
                   aisles = [[(0, 5)], [(1, 2)]],
                   wave_size_lb = 8, wave_size_ub = 9, n_items = 2 \<rparr>"

definition infeasible_solver :: solver where
  "infeasible_solver m = NotOptimal"

section \<open>Properties of the checker\<close>

lemmas checker_defs = is_solution_feasible_def compute_objective_function_def list_item_def
  dict_keys_def dict_values_def dict_get_def np_sum_def np_add_def in_int64_def wrap64_def
  int_le_num_def num_le_int_def true_div_def

subsection \<open>What the loops compute\<close>

lemma list_item_conv:
  "list_item xs i = (if valid_index xs i then Inr (py_nth xs i) else Inl IndexError)"
  by (auto simp: list_item_def valid_index_def py_nth_def)

subsection \<open>The numpy arithmetic in its exact range\<close>

lemma round_double_small: "\<bar>v\<bar> < 2 ^ 53 \<Longrightarrow> round_double v = v"
  by (simp add: round_double_def)

lemma wrap64_small: "in_int64 v \<Longrightarrow> wrap64 v = v"
  by (simp add: wrap64_def in_int64_def)

lemma small_in_int64: "\<bar>v\<bar> < 2 ^ 53 \<Longrightarrow> in_int64 v"
  unfolding in_int64_def by simp linarith

lemma sum_list_abs_nonneg: "0 \<le> sum_list (map abs (vs :: int list))"
  by (induction vs) auto

lemma abs_units_nonneg: "0 \<le> abs_units d"
  by (simp add: abs_units_def sum_list_abs_nonneg)

lemma sum_list_abs_units_nonneg: "0 \<le> (\<Sum>i\<leftarrow>js. abs_units (f i))"
  by (induction js) (auto simp: abs_units_nonneg)

lemma abs_sum_list_le: "\<bar>sum_list vs\<bar> \<le> sum_list (map abs (vs :: int list))"
  by (induction vs) auto

lemma units_of_le_abs_units: "\<bar>units_of d\<bar> \<le> abs_units d"
  by (simp add: units_of_def abs_units_def abs_sum_list_le)

lemma member_le_abs_sum: "v \<in> set vs \<Longrightarrow> \<bar>v\<bar> \<le> sum_list (map abs (vs :: int list))"
proof (induction vs)
  case Nil
  then show ?case by simp
next
  case (Cons a vs)
  show ?case
  proof (cases "v = a")
    case True
    then show ?thesis using sum_list_abs_nonneg [of vs] by simp
  next
    case False
    with Cons have "\<bar>v\<bar> \<le> sum_list (map abs vs)" by simp
    then show ?thesis by simp
  qed
qed

lemma np_sum_exact:
  assumes "abs_units d < 2 ^ 53"
  shows "np_sum (dict_values d)
           = Inr (if dict_values d = [] then NpFloat64 0 else NpInt64 (units_of d))"
proof -
  have "\<forall>v\<in>set (dict_values d). \<bar>v\<bar> < 2 ^ 53"
    using assms member_le_abs_sum [of _ "dict_values d"] by (fastforce simp: abs_units_def)
  then have all: "list_all in_int64 (dict_values d)"
    by (simp add: list_all_iff small_in_int64)
  have "\<bar>units_of d\<bar> < 2 ^ 53"
    using assms units_of_le_abs_units [of d] by simp
  then have "wrap64 (sum_list (dict_values d)) = units_of d"
    by (simp add: wrap64_small small_in_int64 units_of_def)
  with all show ?thesis
    by (simp add: np_sum_def)
qed

lemma np_add_exact:
  assumes "\<not> is_py b" "is_py a \<longrightarrow> in_int64 (num_val a)"
    and "\<bar>num_val a\<bar> + \<bar>num_val b\<bar> < 2 ^ 53"
  shows "np_add a b
           = Inr (if is_f64 a \<or> is_f64 b then NpFloat64 (num_val a + num_val b)
                  else NpInt64 (num_val a + num_val b))"
proof -
  have s: "\<bar>num_val a\<bar> < 2 ^ 53" "\<bar>num_val b\<bar> < 2 ^ 53" "\<bar>num_val a + num_val b\<bar> < 2 ^ 53"
    using assms(3) by linarith+
  show ?thesis
    using assms(1,2) s
    by (simp add: np_add_def round_double_small wrap64_small small_in_int64)
qed

lemma picked_loop_exact:
  assumes "is_py t \<longrightarrow> in_int64 (num_val t)"
    and "\<bar>num_val t\<bar> + (\<Sum>i\<leftarrow>filter (valid_index os) sel. abs_units (py_nth os i)) < 2 ^ 53"
  shows "picked_loop os sel t =
     (if list_all (valid_index os) sel
      then Inr (if sel = [] then t
                else if is_f64 t \<or> (\<exists>i\<in>set sel. dict_values (py_nth os i) = [])
                then NpFloat64 (num_val t + (\<Sum>i\<leftarrow>sel. units_of (py_nth os i)))
                else NpInt64 (num_val t + (\<Sum>i\<leftarrow>sel. units_of (py_nth os i))))
      else Inl IndexError)"
  using assms
proof (induction sel arbitrary: t)
  case Nil
  then show ?case by simp
next
  case (Cons i sel)
  show ?case
  proof (cases "valid_index os i")
    case False
    then show ?thesis by (simp add: list_item_conv)
  next
    case True
    let ?d = "py_nth os i"
    let ?rest = "\<Sum>i\<leftarrow>filter (valid_index os) sel. abs_units (py_nth os i)"
    have rest: "0 \<le> ?rest"
      by (rule sum_list_abs_units_nonneg)
    have bound: "\<bar>num_val t\<bar> + abs_units ?d + ?rest < 2 ^ 53"
      using Cons.prems(2) True by simp
    then have d: "abs_units ?d < 2 ^ 53"
      using rest by linarith
    let ?s = "if dict_values ?d = [] then NpFloat64 0 else NpInt64 (units_of ?d)"
    have s: "np_sum (dict_values ?d) = Inr ?s"
      using d by (rule np_sum_exact)
    have sv: "num_val ?s = units_of ?d"
      by (simp add: units_of_def)
    have "\<bar>num_val t\<bar> + \<bar>num_val ?s\<bar> < 2 ^ 53"
      using bound rest units_of_le_abs_units [of ?d] unfolding sv by linarith
    from np_add_exact [OF _ Cons.prems(1) this]
    have add: "np_add t ?s
           = Inr (if is_f64 t \<or> is_f64 ?s then NpFloat64 (num_val t + units_of ?d)
                  else NpInt64 (num_val t + units_of ?d))"
      unfolding sv by simp
    let ?t = "if is_f64 t \<or> is_f64 ?s then NpFloat64 (num_val t + units_of ?d)
                  else NpInt64 (num_val t + units_of ?d)"
    have tv: "num_val ?t = num_val t + units_of ?d" "\<not> is_py ?t"
      "is_f64 ?t = (is_f64 t \<or> dict_values ?d = [])"
      by simp_all
    have "\<bar>num_val ?t\<bar> + ?rest < 2 ^ 53"
      using bound units_of_le_abs_units [of ?d] unfolding tv(1) by linarith
    from Cons.IH [of ?t, OF _ this] tv(2)
    have ih: "picked_loop os sel ?t =
     (if list_all (valid_index os) sel
      then Inr (if sel = [] then ?t
                else if is_f64 ?t \<or> (\<exists>i\<in>set sel. dict_values (py_nth os i) = [])
                then NpFloat64 (num_val ?t + (\<Sum>i\<leftarrow>sel. units_of (py_nth os i)))
                else NpInt64 (num_val ?t + (\<Sum>i\<leftarrow>sel. units_of (py_nth os i))))
      else Inl IndexError)"
      by blast
    have "picked_loop os (i # sel) t = picked_loop os sel ?t"
      using True s add by (simp add: list_item_conv)
    also note ih
    finally show ?thesis
      using True unfolding tv by (auto simp: add.assoc)
  qed
qed


subsection \<open>The availability loop\<close>

lemma sum_get_conv:
  "sum_get ds js item =
     (if list_all (valid_index ds) js
      then Inr (\<Sum>j\<leftarrow>js. dict_get (py_nth ds j) item 0)
      else Inl IndexError)"
  by (induction js) (auto simp: list_item_conv)

lemma set_fold_insert: "set (fold List.insert ks acc) = set ks \<union> set acc"
  by (induction ks arbitrary: acc) auto

lemma required_loop_conv:
  "required_loop os sel acc =
     (if list_all (valid_index os) sel
      then Inr (fold (\<lambda>i. fold List.insert (dict_keys (py_nth os i))) sel acc)
      else Inl IndexError)"
  by (induction sel arbitrary: acc) (auto simp: list_item_conv)

lemma set_required:
  "set (fold (\<lambda>i. fold List.insert (dict_keys (py_nth os i))) sel acc)
     = set acc \<union> (\<Union>i\<in>set sel. set (dict_keys (py_nth os i)))"
  by (induction sel arbitrary: acc) (auto simp: set_fold_insert)

lemma item_loop_conv:
  "list_all (valid_index (orders w)) sel \<Longrightarrow>
   item_loop w sel vis items =
     (if items = [] then Inr True
      else if \<not> list_all (valid_index (aisles w)) vis then Inl IndexError
      else Inr (\<forall>item\<in>set items.
              (\<Sum>j\<leftarrow>sel. dict_get (py_nth (orders w) j) item 0)
               \<le> (\<Sum>j\<leftarrow>vis. dict_get (py_nth (aisles w) j) item 0)))"
  by (induction items) (auto simp: sum_get_conv)



subsection \<open>What the two methods compute\<close>

lemma picked_total_simps:
  "num_val (picked_total os sel) = (\<Sum>i\<leftarrow>sel. units_of (py_nth os i))"
  "is_py (picked_total os sel) = (sel = [])"
  by (simp_all add: picked_total_def)

lemma picked_loop_conv:
  assumes "exact_sums w sel"
  shows "picked_loop (orders w) sel (PyInt 0) =
     (if list_all (valid_index (orders w)) sel then Inr (picked_total (orders w) sel)
      else Inl IndexError)"
proof -
  have "is_py (PyInt 0) \<longrightarrow> in_int64 (num_val (PyInt 0))"
    by (simp add: in_int64_def)
  moreover have "\<bar>num_val (PyInt 0)\<bar>
      + (\<Sum>i\<leftarrow>filter (valid_index (orders w)) sel. abs_units (py_nth (orders w) i)) < 2 ^ 53"
    using assms by (simp add: exact_sums_def)
  ultimately show ?thesis
    by (simp add: picked_loop_exact picked_total_def)
qed

lemma bounds_exact:
  assumes "\<bar>b\<bar> < 2 ^ 53"
  shows "int_le_num b t = (b \<le> num_val t)" "num_le_int t b = (num_val t \<le> b)"
  using assms by (simp_all add: int_le_num_def num_le_int_def round_double_small)

lemma is_solution_feasible_conv:
  assumes "exact_range w sel"
  shows "is_solution_feasible w sel vis =
     (if \<not> list_all (valid_index (orders w)) sel then Inl IndexError
      else if \<not> (wave_size_lb w \<le> (\<Sum>i\<leftarrow>sel. units_of (py_nth (orders w) i))
               \<and> (\<Sum>i\<leftarrow>sel. units_of (py_nth (orders w) i)) \<le> wave_size_ub w)
      then Inr False
      else if items_of w (set sel) = {} then Inr True
      else if \<not> list_all (valid_index (aisles w)) vis then Inl IndexError
      else Inr (\<forall>item\<in>items_of w (set sel).
              (\<Sum>j\<leftarrow>sel. dict_get (py_nth (orders w) j) item 0)
               \<le> (\<Sum>j\<leftarrow>vis. dict_get (py_nth (aisles w) j) item 0)))"
proof (cases "list_all (valid_index (orders w)) sel")
  case False
  with assms show ?thesis
    by (simp add: is_solution_feasible_def picked_loop_conv exact_range_def)
next
  case True
  have items: "set (fold (\<lambda>i. fold List.insert (dict_keys (py_nth (orders w) i))) sel [])
                 = items_of w (set sel)"
    by (simp add: set_required items_of_def)
  have empty: "(fold (\<lambda>i. fold List.insert (dict_keys (py_nth (orders w) i))) sel [] = [])
                 = (items_of w (set sel) = {})"
    using items by (metis set_empty)
  have picked: "picked_loop (orders w) sel (PyInt 0) = Inr (picked_total (orders w) sel)"
    using True assms by (simp add: picked_loop_conv exact_range_def)
  have cmp: "int_le_num (wave_size_lb w) (picked_total (orders w) sel)
               = (wave_size_lb w \<le> (\<Sum>i\<leftarrow>sel. units_of (py_nth (orders w) i)))"
    "num_le_int (picked_total (orders w) sel) (wave_size_ub w)
               = ((\<Sum>i\<leftarrow>sel. units_of (py_nth (orders w) i)) \<le> wave_size_ub w)"
    using assms by (simp_all add: exact_range_def bounds_exact picked_total_simps)
  have loop: "item_loop w sel vis (fold (\<lambda>i. fold List.insert (dict_keys (py_nth (orders w) i))) sel [])
      = (if items_of w (set sel) = {} then Inr True
         else if \<not> list_all (valid_index (aisles w)) vis then Inl IndexError
         else Inr (\<forall>item\<in>items_of w (set sel).
              (\<Sum>j\<leftarrow>sel. dict_get (py_nth (orders w) j) item 0)
               \<le> (\<Sum>j\<leftarrow>vis. dict_get (py_nth (aisles w) j) item 0)))"
    using True by (simp only: item_loop_conv items empty)
  show ?thesis
    unfolding is_solution_feasible_def picked
    using True by (simp only: required_loop_conv loop cmp sum.case if_True not_True_eq_False if_False)
qed

lemma true_div_kind:
  "true_div t n = true_div (if is_py t then PyInt (num_val t) else NpInt64 (num_val t)) n"
  by (cases t) (simp_all add: true_div_def)

lemma compute_objective_function_conv:
  assumes "exact_sums w sel"
  shows "compute_objective_function w sel vis =
     (if \<not> list_all (valid_index (orders w)) sel then Inl IndexError
      else true_div (if sel = [] then PyInt 0
                     else NpInt64 (\<Sum>i\<leftarrow>sel. units_of (py_nth (orders w) i)))
             (length vis))"
proof (cases "list_all (valid_index (orders w)) sel")
  case False
  with assms show ?thesis
    by (simp add: compute_objective_function_def picked_loop_conv)
next
  case True
  have "true_div (picked_total (orders w) sel) (length vis)
          = true_div (if sel = [] then PyInt 0
                     else NpInt64 (\<Sum>i\<leftarrow>sel. units_of (py_nth (orders w) i))) (length vis)"
    using true_div_kind [of "picked_total (orders w) sel" "length vis"]
    by (simp add: picked_total_simps)
  with True assms show ?thesis
    by (simp add: compute_objective_function_def picked_loop_conv)
qed

lemma sum_list_distinct: "distinct xs \<Longrightarrow> (\<Sum>x\<leftarrow>xs. f x) = (\<Sum>x\<in>set xs. (f x :: int))"
  by (simp add: sum_list_distinct_conv_sum_set)

lemma is_solution_feasible_distinct:
  assumes "distinct sel" "distinct vis" "exact_range w sel"
  shows "is_solution_feasible w sel vis = feasible_on_sets w (set sel) (set vis)"
  using assms(1,2)
  by (simp add: is_solution_feasible_conv [OF assms(3)] feasible_on_sets_def sum_list_distinct
      units_picked_def total_demand_def total_supply_def list_all_iff)

lemma compute_objective_function_distinct:
  assumes "distinct sel" "distinct vis" "exact_sums w sel"
  shows "compute_objective_function w sel vis = objective_on_sets w (set sel) (set vis)"
  using assms(1,2)
  by (simp add: compute_objective_function_conv [OF assms(3)] objective_on_sets_def
      sum_list_distinct units_picked_def list_all_iff distinct_card)

lemma sum_list_mset_cong:
  "mset xs = mset ys \<Longrightarrow> (\<Sum>x\<leftarrow>xs. f x) = (\<Sum>x\<leftarrow>ys. (f x :: int))"
  by (metis mset_map sum_mset_sum_list)

lemma exact_sums_perm:
  assumes "mset sel' = mset sel"
  shows "exact_sums w sel' = exact_sums w sel"
proof -
  have "mset (filter (valid_index (orders w)) sel') = mset (filter (valid_index (orders w)) sel)"
    using assms by simp
  from sum_list_mset_cong [OF this] show ?thesis
    by (simp add: exact_sums_def)
qed

lemma is_solution_feasible_perm:
  assumes "mset sel' = mset sel" "mset vis' = mset vis" "exact_range w sel"
  shows "is_solution_feasible w sel' vis' = is_solution_feasible w sel vis"
proof -
  have s: "set sel' = set sel" "set vis' = set vis"
    using assms by (metis mset_eq_setD)+
  have a: "\<And>f. (\<Sum>x\<leftarrow>sel'. f x) = (\<Sum>x\<leftarrow>sel. (f x :: int))"
       "\<And>f. (\<Sum>x\<leftarrow>vis'. f x) = (\<Sum>x\<leftarrow>vis. (f x :: int))"
    using assms by (auto intro: sum_list_mset_cong)
  have r: "exact_range w sel'"
    using assms(3) exact_sums_perm [OF assms(1), of w] by (simp add: exact_range_def)
  have v: "list_all (valid_index (orders w)) sel' = list_all (valid_index (orders w)) sel"
    "list_all (valid_index (aisles w)) vis' = list_all (valid_index (aisles w)) vis"
    by (simp_all add: list_all_iff s)
  show ?thesis
    unfolding is_solution_feasible_conv [OF r] is_solution_feasible_conv [OF assms(3)] a s v
    by (rule refl)
qed

lemma compute_objective_function_perm:
  assumes "mset sel' = mset sel" "mset vis' = mset vis" "exact_sums w sel"
  shows "compute_objective_function w sel' vis' = compute_objective_function w sel vis"
proof -
  have s: "set sel' = set sel" "length vis' = length vis" "(sel' = []) = (sel = [])"
    using assms by (metis mset_eq_setD mset_eq_length mset_zero_iff)+
  have a: "\<And>f. (\<Sum>x\<leftarrow>sel'. f x) = (\<Sum>x\<leftarrow>sel. (f x :: int))"
    using assms by (auto intro: sum_list_mset_cong)
  have r: "exact_sums w sel'"
    using assms(3) exact_sums_perm [OF assms(1), of w] by simp
  have v: "list_all (valid_index (orders w)) sel' = list_all (valid_index (orders w)) sel"
    by (simp add: list_all_iff s)
  show ?thesis
    unfolding compute_objective_function_conv [OF r]
      compute_objective_function_conv [OF assms(3)] a s v
    by (rule refl)
qed

subsection \<open>Claims about the checker\<close>

text \<open>
  C1 as the code has it. The units picked are accumulated in numpy's 64-bit integers: on
  \<open>big_instance\<close> the single order has \<open>2^63\<close> units, which lie within the wave bounds,
  and every item's demand is met by the visited aisle, so both conditions of the claim
  hold; but the int64 sum wraps to \<open>-2^63\<close> and the method answers \<open>False\<close>.
\<close>

theorem int64_sum_wraps:
  "index_set (orders big_instance) [0] \<and> index_set (aisles big_instance) [0]
   \<and> claimed_feasible big_instance {0} {0}
   \<and> is_solution_feasible big_instance [0] [0] = Inr False"
  by (simp add: big_instance_def index_set_def claimed_feasible_def units_picked_def
      total_demand_def total_supply_def items_of_def py_nth_def units_of_def checker_defs)

text \<open>
  C1, amended: for an instance and a pair of index sets (each given as a list without
  repetition of indices in range) in the exact range of the numpy arithmetic (the
  selected quantities sum to less than \<open>2^53\<close> in absolute value and so do the wave
  bounds), \<open>is_solution_feasible\<close> returns \<open>True\<close> exactly when the units picked over the
  selected orders lie in \<open>[wave_size_lb, wave_size_ub]\<close> and, for every item of a selected
  order, the demand summed over the selected orders is at most the supply summed over the
  visited aisles.
\<close>

theorem is_solution_feasible_iff:
  assumes "index_set (orders w) sel" "index_set (aisles w) vis" "exact_range w sel"
  shows "is_solution_feasible w sel vis
           = Inr ((wave_size_lb w \<le> units_picked w (set sel)
                    \<and> units_picked w (set sel) \<le> wave_size_ub w)
                  \<and> (\<forall>item\<in>items_of w (set sel).
                        total_demand w (set sel) item \<le> total_supply w (set vis) item))"
proof -
  have "distinct sel" "distinct vis"
    using assms by (simp_all add: index_set_def)
  moreover have "\<forall>j\<in>set sel. valid_index (orders w) j" "\<forall>a\<in>set vis. valid_index (aisles w) a"
    using assms by (auto simp: index_set_def valid_index_def list_all_iff)
  ultimately show ?thesis
    using assms(3) by (auto simp: is_solution_feasible_distinct feasible_on_sets_def)
qed

theorem is_solution_feasible_iff_witness:
  "index_set (orders scenario_A) [1] \<and> index_set (aisles scenario_A) [0]
   \<and> exact_range scenario_A [1]
   \<and> is_solution_feasible scenario_A [1] [0] = Inr False
   \<and> wave_size_lb scenario_A \<le> units_picked scenario_A {1}
   \<and> units_picked scenario_A {1} \<le> wave_size_ub scenario_A
   \<and> \<not> total_demand scenario_A {1} 1 \<le> total_supply scenario_A {0} 1
   \<and> index_set (orders scenario_A) [0] \<and> exact_range scenario_A [0]
   \<and> is_solution_feasible scenario_A [0] [0] = Inr True"
proof -
  have a: "index_set (orders scenario_A) [1]" "index_set (orders scenario_A) [0]"
    and b: "index_set (aisles scenario_A) [0]"
    by (simp_all add: index_set_def scenario_A_def)
  have r: "exact_range scenario_A [1]" "exact_range scenario_A [0]"
    by (simp_all add: exact_range_def exact_sums_def scenario_A_def valid_index_def py_nth_def
        abs_units_def dict_values_def)
  have u: "units_picked scenario_A {1} = 4" "units_picked scenario_A {0} = 3"
    by (simp_all add: units_picked_def scenario_A_def py_nth_def units_of_def dict_values_def)
  have i: "items_of scenario_A {1} = {0, 1}" "items_of scenario_A {0} = {0}"
    by (auto simp: items_of_def scenario_A_def py_nth_def dict_keys_def)
  have d: "total_demand scenario_A {1} 1 = 2" "total_supply scenario_A {0} 1 = 0"
    "total_demand scenario_A {0} 0 = 3" "total_supply scenario_A {0} 0 = 5"
    by (simp_all add: total_demand_def total_supply_def scenario_A_def py_nth_def dict_get_def)
  have lu: "wave_size_lb scenario_A = 2" "wave_size_ub scenario_A = 5"
    by (simp_all add: scenario_A_def)
  from is_solution_feasible_iff [OF a(1) b r(1)]
  have f1: "is_solution_feasible scenario_A [1] [0] = Inr False"
    by (simp add: u i d lu)
  from is_solution_feasible_iff [OF a(2) b r(2)]
  have f2: "is_solution_feasible scenario_A [0] [0] = Inr True"
    by (simp add: u i d lu)
  from a b r f1 f2 show ?thesis
    by (simp add: u d lu)
qed

text \<open>
  C5, the zero-aisle case: on scenario A with order 0 selected and no aisle visited the
  accumulator is a numpy scalar, so the division returns \<open>inf\<close>; only with no selected
  order at all is \<open>ZeroDivisionError\<close> raised.
\<close>

theorem zero_aisles_objective:
  "compute_objective_function scenario_A [0] [] = Inr PosInf
   \<and> compute_objective_function scenario_A [] [] = Inl ZeroDivisionError"
  by (simp add: scenario_A_def checker_defs)

text \<open>
  C6 as the code has it. Called directly with a repeated index, both methods count the
  repeated order or aisle once per occurrence, so the verdict and the objective differ
  from those of the deduplicated sets.
\<close>

theorem duplicates_change_result:
  "is_solution_feasible scenario_A [0, 0] [0] = Inr False
   \<and> is_solution_feasible scenario_A (list_of_set [0, 0]) (list_of_set [0]) = Inr True
   \<and> compute_objective_function scenario_A [0] [0, 0] = Inr (Fin (3 / 2))
   \<and> compute_objective_function scenario_A (list_of_set [0]) (list_of_set [0, 0]) = Inr (Fin 3)"
  by (simp add: scenario_A_def checker_defs list_of_set_def)

text \<open>
  C6, amended: in the exact range of the numpy arithmetic (the selected quantities sum to
  less than \<open>2^53\<close> in absolute value and so do the wave bounds), permuting the index lists
  never changes either result; on lists without repetition both results are functions of
  the index sets alone; and the lists that \<open>read_output\<close> hands over, deduplicated by
  \<open>list(set(...))\<close>, give the results of the index sets of the file.
\<close>

theorem validator_set_semantics:
  "(mset sel' = mset sel \<and> mset vis' = mset vis \<and> exact_range w sel \<longrightarrow>
      is_solution_feasible w sel' vis' = is_solution_feasible w sel vis
      \<and> compute_objective_function w sel' vis' = compute_objective_function w sel vis)
   \<and> (distinct sel \<and> distinct vis \<and> exact_range w sel \<longrightarrow>
      is_solution_feasible w sel vis = feasible_on_sets w (set sel) (set vis)
      \<and> compute_objective_function w sel vis = objective_on_sets w (set sel) (set vis))
   \<and> (exact_range w (list_of_set sel) \<longrightarrow>
      is_solution_feasible w (list_of_set sel) (list_of_set vis)
        = feasible_on_sets w (set sel) (set vis)
      \<and> compute_objective_function w (list_of_set sel) (list_of_set vis)
        = objective_on_sets w (set sel) (set vis))"
proof (intro conjI impI)
  assume h: "mset sel' = mset sel \<and> mset vis' = mset vis \<and> exact_range w sel"
  then have "exact_sums w sel" by (simp add: exact_range_def)
  with h show "is_solution_feasible w sel' vis' = is_solution_feasible w sel vis"
    and "compute_objective_function w sel' vis' = compute_objective_function w sel vis"
    by (blast intro: is_solution_feasible_perm compute_objective_function_perm)+
next
  assume h: "distinct sel \<and> distinct vis \<and> exact_range w sel"
  then have "exact_sums w sel" by (simp add: exact_range_def)
  with h show "is_solution_feasible w sel vis = feasible_on_sets w (set sel) (set vis)"
    and "compute_objective_function w sel vis = objective_on_sets w (set sel) (set vis)"
    by (blast intro: is_solution_feasible_distinct compute_objective_function_distinct)+
next
  assume h: "exact_range w (list_of_set sel)"
  then have r: "exact_range w (remdups sel)" "exact_sums w (remdups sel)"
    by (simp_all add: list_of_set_def exact_range_def)
  have d: "distinct (remdups sel)" "distinct (remdups vis)"
    by simp_all
  show "is_solution_feasible w (list_of_set sel) (list_of_set vis)
               = feasible_on_sets w (set sel) (set vis)"
    and "compute_objective_function w (list_of_set sel) (list_of_set vis)
               = objective_on_sets w (set sel) (set vis)"
    unfolding list_of_set_def
    using is_solution_feasible_distinct [OF d r(1)]
      compute_objective_function_distinct [OF d r(2)]
    by simp_all
qed

theorem validator_set_semantics_witness:
  "exact_range scenario_A [0, 1] \<and> exact_range scenario_A [0]
   \<and> exact_range scenario_A (list_of_set [0, 0])
   \<and> is_solution_feasible scenario_A [1, 0] [0, 1] = is_solution_feasible scenario_A [0, 1] [1, 0]
   \<and> compute_objective_function scenario_A [1, 0] [0, 1]
       = compute_objective_function scenario_A [0, 1] [1, 0]
   \<and> is_solution_feasible scenario_A [0] [0] = feasible_on_sets scenario_A {0} {0}
   \<and> compute_objective_function scenario_A [0] [0] = objective_on_sets scenario_A {0} {0}
   \<and> is_solution_feasible scenario_A (list_of_set [0, 0]) (list_of_set [0, 0, 0])
       = feasible_on_sets scenario_A {0} {0}
   \<and> compute_objective_function scenario_A (list_of_set [0, 0]) (list_of_set [0, 0, 0])
       = objective_on_sets scenario_A {0} {0}"
proof -
  have p: "mset [1, 0 :: int] = mset [0, 1]" "mset [0, 1 :: int] = mset [1, 0]"
    by simp_all
  have s: "set [0 :: int] = {0}" "set [0, 0 :: int] = {0}" "set [0, 0, 0 :: int] = {0}"
    by simp_all
  have d: "distinct [0 :: int]"
    by simp
  have r: "exact_range scenario_A [0, 1]" "exact_range scenario_A [0]"
    "exact_range scenario_A (list_of_set [0, 0])"
    by (simp_all add: exact_range_def exact_sums_def scenario_A_def valid_index_def py_nth_def
        abs_units_def dict_values_def list_of_set_def)
  note t1 = validator_set_semantics [where sel' = "[1, 0]" and sel = "[0, 1]"
      and vis' = "[0, 1]" and vis = "[1, 0]" and w = scenario_A]
  note t2 = validator_set_semantics [where sel' = "[0]" and sel = "[0]"
      and vis' = "[0]" and vis = "[0]" and w = scenario_A]
  note t3 = validator_set_semantics [where sel' = "[0, 0]" and sel = "[0, 0]"
      and vis' = "[0, 0, 0]" and vis = "[0, 0, 0]" and w = scenario_A]
  from t1 p r(1) have "is_solution_feasible scenario_A [1, 0] [0, 1] = is_solution_feasible scenario_A [0, 1] [1, 0]
    \<and> compute_objective_function scenario_A [1, 0] [0, 1]
       = compute_objective_function scenario_A [0, 1] [1, 0]"
    by blast
  moreover from t2 d s r(2) have "is_solution_feasible scenario_A [0] [0] = feasible_on_sets scenario_A {0} {0}
    \<and> compute_objective_function scenario_A [0] [0] = objective_on_sets scenario_A {0} {0}"
    by metis
  moreover from t3 s r(3) have "is_solution_feasible scenario_A (list_of_set [0, 0]) (list_of_set [0, 0, 0])
       = feasible_on_sets scenario_A {0} {0}
    \<and> compute_objective_function scenario_A (list_of_set [0, 0]) (list_of_set [0, 0, 0])
       = objective_on_sets scenario_A {0} {0}"
    by metis
  ultimately show ?thesis
    using r by blast
qed

text \<open>
  C8: on the instance with orders \<open>{0:{0:3}, 1:{0:2,1:2}}\<close>, aisles \<open>{0:{0:5}, 1:{1:2}}\<close>
  and bounds 2 and 5, selecting order 0 and aisle 0 is feasible and its objective is 3.0.
\<close>

theorem scenario_A_feasible_objective:
  "is_solution_feasible scenario_A [0] [0] = Inr True
   \<and> compute_objective_function scenario_A [0] [0] = Inr (Fin 3)"
  by (simp add: scenario_A_def checker_defs)

text \<open>
  C10: with no selected order the feasibility check answers whether
  \<open>wave_size_lb \<le> 0 \<le> wave_size_ub\<close>, whatever aisles are listed (the aisle list is
  never indexed, so not even an invalid aisle index is noticed).
\<close>

theorem empty_selection_feasible_iff:
  "is_solution_feasible w [] visited_aisles
     = Inr (wave_size_lb w \<le> 0 \<and> 0 \<le> wave_size_ub w)"
  by (simp add: is_solution_feasible_def int_le_num_def num_le_int_def)

theorem empty_selection_feasible_iff_witness:
  "is_solution_feasible scenario_A [] [7, 0] = Inr False
   \<and> is_solution_feasible (scenario_A\<lparr>wave_size_lb := 0\<rparr>) [] [7, 0] = Inr True"
  using empty_selection_feasible_iff [of scenario_A "[7, 0]"]
    empty_selection_feasible_iff [of "scenario_A\<lparr>wave_size_lb := 0\<rparr>" "[7, 0]"]
  by (simp add: scenario_A_def)

section \<open>Properties of the formulation\<close>

subsection \<open>The index and the model, in closed form\<close>

lemma append_entries_conv:
  "\<forall>i\<in>set (dict_keys d). m i \<noteq> None \<Longrightarrow>
   append_entries e d m = Inr (\<lambda>i. map_option (\<lambda>l. l @ entries_of e d i) (m i))"
proof (induction d arbitrary: m)
  case Nil
  then show ?case by (simp add: entries_of_def option.map_ident)
next
  case (Cons p d)
  obtain i0 q where p: "p = (i0, q)" by (cases p)
  from Cons.prems p obtain l where l: "m i0 = Some l"
    by (auto simp: dict_keys_def)
  let ?m = "m(i0 \<mapsto> l @ [(e, q)])"
  have "\<forall>i\<in>set (dict_keys d). ?m i \<noteq> None"
    using Cons.prems by (auto simp: dict_keys_def)
  from Cons.IH [OF this]
  have "append_entries e d ?m = Inr (\<lambda>i. map_option (\<lambda>l. l @ entries_of e d i) (?m i))" .
  moreover have "(\<lambda>i. map_option (\<lambda>l. l @ entries_of e d i) (?m i))
       = (\<lambda>i. map_option (\<lambda>l. l @ entries_of e (p # d) i) (m i))"
    by (rule ext) (simp add: p l entries_of_def)
  ultimately show ?case
    by (simp add: p l)
qed

lemma index_loop_conv:
  "\<forall>d\<in>set ds. \<forall>i\<in>set (dict_keys d). m i \<noteq> None \<Longrightarrow>
   index_loop e ds m = Inr (\<lambda>i. map_option (\<lambda>l. l @ incidence_from e ds i) (m i))"
proof (induction ds arbitrary: e m)
  case Nil
  then show ?case by (simp add: option.map_ident)
next
  case (Cons d ds)
  let ?m = "\<lambda>i. map_option (\<lambda>l. l @ entries_of e d i) (m i)"
  have a: "append_entries e d m = Inr ?m"
    using Cons.prems by (simp add: append_entries_conv)
  have "\<forall>d\<in>set ds. \<forall>i\<in>set (dict_keys d). ?m i \<noteq> None"
    using Cons.prems by simp
  from Cons.IH [OF this, of "Suc e"]
  have "index_loop (Suc e) ds ?m
          = Inr (\<lambda>i. map_option (\<lambda>l. l @ incidence_from (Suc e) ds i) (?m i))" .
  moreover have "(\<lambda>i. map_option (\<lambda>l. l @ incidence_from (Suc e) ds i) (?m i))
      = (\<lambda>i. map_option (\<lambda>l. l @ incidence_from e (d # ds) i) (m i))"
    by (rule ext) (simp add: option.map_comp comp_def entries_of_def)
  ultimately show ?case
    by (simp add: a)
qed

lemma build_index_conv:
  assumes "items_in_range n ds"
  shows "build_index n ds = Inr (index_of n ds)"
proof -
  have "\<forall>d\<in>set ds. \<forall>i\<in>set (dict_keys d). empty_index n i \<noteq> None"
    using assms by (auto simp: items_in_range_def list_all_iff empty_index_def)
  from index_loop_conv [OF this, of 0]
  show ?thesis
    by (simp add: build_index_def index_of_def empty_index_def fun_eq_iff)
qed

lemma incidence_from_empty_iff:
  "(incidence_from e ds i \<noteq> []) = demanded ds i"
proof (induction ds arbitrary: e)
  case Nil
  then show ?case by (simp add: demanded_def)
next
  case (Cons d ds)
  have "(filter (\<lambda>(i', qty). i' = i) d \<noteq> []) = (i \<in> set (dict_keys d))"
    by (force simp: filter_empty_conv dict_keys_def)
  with Cons.IH [of "Suc e"] show ?case
    by (simp add: demanded_def)
qed

lemma availability_loop_conv:
  "\<forall>i\<in>set js. 0 \<le> i \<and> i < n \<Longrightarrow>
   availability_loop (index_of n os) (index_of n as) js
     = Inr (map (\<lambda>i. (Availability i,
                      LeExpr (demand_expr (incidence_from 0 os i))
                             (supply_expr (incidence_from 0 as i))))
               (filter (demanded os) js))"
  by (induction js) (auto simp: index_of_def incidence_from_empty_iff)

lemma units_expr_conv:
  "units_expr os = map (\<lambda>j. (units_of (os ! j), X j)) [0..<length os]"
  by (simp add: units_expr_def total_units_def units_of_def)

lemma py_range_bounds: "\<forall>i\<in>set (py_range n). 0 \<le> i \<and> i < n"
  by (auto simp: py_range_def)

lemma build_model_conv:
  "build_model inst (index_of (n_items inst) (orders inst)) (index_of (n_items inst) (aisles inst)) (int k)
     = Inr (spec_formulation inst k)"
  by (simp add: build_model_def availability_loop_conv [OF py_range_bounds]
      spec_formulation_def units_expr_conv aisle_count_expr_def demand_expr_def supply_expr_def)

lemma set_aisle_limit_spec:
  "set_aisle_limit (int k) (spec_formulation inst j) = spec_formulation inst k"
  by (simp add: set_aisle_limit_def spec_formulation_def)

lemma formulation_pulp_conv:
  assumes "items_in_range (n_items inst) (orders inst)" "items_in_range (n_items inst) (aisles inst)"
  shows "formulation_pulp inst k = Inr (spec_formulation inst k)"
  using assms by (simp add: formulation_pulp_def with_indices_def build_index_conv build_model_conv)

lemma formulation_gurobi_conv:
  assumes "items_in_range (n_items inst) (orders inst)" "items_in_range (n_items inst) (aisles inst)"
  shows "formulation_gurobi inst k = Inr (spec_formulation inst k)"
  using assms build_model_conv [of inst 1]
  by (simp add: formulation_gurobi_def with_indices_def build_index_conv set_aisle_limit_spec)


lemma map_of_availability:
  "map_of (map (\<lambda>i. (Availability i, f i)) js) AisleLimit = None"
  by (induction js) simp_all

lemma aisle_limit_spec: "aisle_limit (spec_formulation inst k) = Some (int k)"
  by (simp add: aisle_limit_def spec_formulation_def map_of_append map_add_def map_of_availability)

lemma set_aisle_limit_spec_nat:
  "0 \<le> b \<Longrightarrow> set_aisle_limit b (spec_formulation inst j) = spec_formulation inst (nat b)"
  using set_aisle_limit_spec [of "nat b" inst j] by simp

subsection \<open>Feasible assignments and optima under growing budgets\<close>

lemma feasible_budget_mono:
  assumes "k1 \<le> k2" "feasible (spec_formulation inst k1) c"
  shows "feasible (spec_formulation inst k2) c"
  using assms by (auto simp: feasible_def spec_formulation_def)

lemma objective_spec: "objective (spec_formulation inst k1) = objective (spec_formulation inst k2)"
  by (simp add: spec_formulation_def)

lemma optimum_conv:
  "optimum m no na =
     (if objective_values m no na = [] then None else Some (Max (set (objective_values m no na))))"
proof (cases "objective_values m no na")
  case Nil
  then show ?thesis by (simp add: optimum_def)
next
  case (Cons v vs)
  have "fold max vs v = Max (set (v # vs))"
    by (rule Max.set_eq_fold [symmetric])
  with Cons show ?thesis by (simp add: optimum_def)
qed

lemma objective_values_mono:
  assumes "k1 \<le> k2"
  shows "set (objective_values (spec_formulation inst k1) no na)
           \<subseteq> set (objective_values (spec_formulation inst k2) no na)"
  using feasible_budget_mono [OF assms] objective_spec [of inst k1 k2]
  by (auto simp: objective_values_def)

lemma optimum_budget_mono:
  assumes "k1 \<le> k2" "optimum (spec_formulation inst k1) no na = Some v1"
  shows "\<exists>v2. optimum (spec_formulation inst k2) no na = Some v2 \<and> v1 \<le> v2"
proof -
  let ?A = "set (objective_values (spec_formulation inst k1) no na)"
  let ?B = "set (objective_values (spec_formulation inst k2) no na)"
  have sub: "?A \<subseteq> ?B" using assms(1) by (rule objective_values_mono)
  from assms(2) have ne: "?A \<noteq> {}" and v1: "v1 = Max ?A"
    by (auto simp: optimum_conv split: if_splits)
  from sub ne have "?B \<noteq> {}" by auto
  then have "optimum (spec_formulation inst k2) no na = Some (Max ?B)"
    by (simp add: optimum_conv)
  moreover have "Max ?A \<le> Max ?B"
    using sub ne by (intro Max_mono) simp_all
  ultimately show ?thesis using v1 by simp
qed


subsection \<open>Scenario A as an integer program\<close>

lemma scenario_A_items:
  "items_in_range (n_items scenario_A_instance) (orders scenario_A_instance)"
  "items_in_range (n_items scenario_A_instance) (aisles scenario_A_instance)"
  by (simp_all add: items_in_range_def scenario_A_instance_def dict_keys_def)

lemma scenario_A_optimum_1: "optimum (spec_formulation scenario_A_instance 1) 2 2 = Some 3"
  by code_simp

lemma scenario_A_optimum_2: "optimum (spec_formulation scenario_A_instance 2) 2 2 = Some 4"
  by code_simp

subsection \<open>What the availability rows say\<close>

lemma eval_lin_append: "eval_lin val (a @ b) = eval_lin val a + eval_lin val b"
  by (induction a) (auto simp: algebra_simps)

lemma filter_key_absent:
  "i \<notin> fst ` set d \<Longrightarrow> filter (\<lambda>(i', qty). i' = i) d = []"
  by (induction d) auto

lemma entries_eval:
  assumes "dict_ok d"
  shows "eval_lin val (map (\<lambda>(j, q). (q, V j)) (entries_of e d i))
           = of_int (dict_get d i 0) * val (V e)"
  using assms
proof (induction d)
  case Nil
  then show ?case by (simp add: entries_of_def dict_get_def)
next
  case (Cons p d)
  obtain i0 q0 where p: "p = (i0, q0)" by (cases p)
  from Cons.prems have ok: "dict_ok d" and fresh: "i0 \<notin> fst ` set d"
    by (simp_all add: dict_ok_def p)
  show ?case
  proof (cases "i0 = i")
    case True
    with fresh have "filter (\<lambda>(i', qty). i' = i) d = []"
      by (simp add: filter_key_absent)
    with True show ?thesis
      by (simp add: entries_of_def dict_get_def p)
  next
    case False
    with Cons.IH [OF ok] show ?thesis
      by (simp add: entries_of_def dict_get_def p)
  qed
qed

lemma sum_list_upt_shift:
  "(\<Sum>j\<leftarrow>[0..<Suc n]. f j) = f 0 + (\<Sum>j\<leftarrow>[0..<n]. (f (Suc j) :: 'a :: comm_monoid_add))"
proof -
  have "[0..<Suc n] = 0 # map Suc [0..<n]"
    by (simp add: upt_conv_Cons map_Suc_upt del: upt_Suc)
  then show ?thesis
    by (simp add: comp_def del: upt_Suc)
qed

lemma incidence_eval:
  assumes "list_all dict_ok ds"
  shows "eval_lin val (map (\<lambda>(j, q). (q, V j)) (incidence_from e ds i))
           = (\<Sum>j\<leftarrow>[0..<length ds]. of_int (dict_get (ds ! j) i 0) * val (V (e + j)))"
  using assms
proof (induction ds arbitrary: e)
  case Nil
  then show ?case by simp
next
  case (Cons d ds)
  from Cons.prems have d: "dict_ok d" and ds: "list_all dict_ok ds"
    by simp_all
  have "incidence_from e (d # ds) i = entries_of e d i @ incidence_from (Suc e) ds i"
    by (simp add: entries_of_def)
  then show ?case
    using entries_eval [OF d, of val V e i] Cons.IH [OF ds, of "Suc e"]
    by (simp add: eval_lin_append sum_list_upt_shift del: upt_Suc)
qed

lemma sum_list_indicator:
  "(\<Sum>j\<leftarrow>js. f j * (if P j then 1 else 0)) = (\<Sum>j\<leftarrow>filter P js. (f j :: int))"
  by (induction js) auto

lemma demand_expr_eval:
  assumes "list_all dict_ok os"
  shows "eval_lin (chosen so sa) (map (\<lambda>(j, q). (q, X j)) (incidence_from 0 os i))
           = selected_quantity os so i"
  using incidence_eval [OF assms, of "chosen so sa" X 0 i]
  by (simp add: selected_quantity_def sum_list_indicator)

lemma supply_expr_eval:
  assumes "list_all dict_ok as"
  shows "eval_lin (chosen so sa) (map (\<lambda>(a, q). (q, Y a)) (incidence_from 0 as i))
           = selected_quantity as sa i"
  using incidence_eval [OF assms, of "chosen so sa" Y 0 i]
  by (simp add: selected_quantity_def sum_list_indicator)

lemma availability_names:
  "map fst (constraints (spec_formulation inst k))
     = [WaveLB, WaveUB]
       @ map Availability (filter (demanded (orders inst)) (py_range (n_items inst)))
       @ [AisleLimit]"
  by (simp add: spec_formulation_def comp_def)

lemma availability_lookup:
  "map_of (constraints (spec_formulation inst k)) (Availability i)
     = (if 0 \<le> i \<and> i < n_items inst \<and> demanded (orders inst) i
        then Some (LeExpr (map (\<lambda>(j, q). (q, X j)) (incidence_from 0 (orders inst) i))
                          (map (\<lambda>(a, q). (q, Y a)) (incidence_from 0 (aisles inst) i)))
        else None)"
proof -
  have inj: "inj Availability" by (simp add: inj_def)
  have r: "i \<in> set (py_range (n_items inst)) = (0 \<le> i \<and> i < n_items inst)"
    by (auto simp: py_range_def image_iff intro: bexI [of _ "nat i"])
  let ?js = "filter (demanded (orders inst)) (py_range (n_items inst))"
  let ?f = "\<lambda>i. LeExpr (map (\<lambda>(j, q). (q, X j)) (incidence_from 0 (orders inst) i))
                          (map (\<lambda>(a, q). (q, Y a)) (incidence_from 0 (aisles inst) i))"
  have "map_of (map (\<lambda>i. (Availability i, ?f i)) js) (Availability i)
          = (if i \<in> set js then Some (?f i) else None)" for js
    by (induction js) auto
  from this [of ?js] show ?thesis
    by (simp add: spec_formulation_def map_of_append map_add_def r split: option.splits)
qed



lemma scenario_A_formulation:
  "spec_formulation scenario_A_instance k
     = \<lparr> constraints =
           [(WaveLB, GeConst [(3, X 0), (4, X 1)] 2),
            (WaveUB, LeConst [(3, X 0), (4, X 1)] 5),
            (Availability 0, LeExpr [(3, X 0), (2, X 1)] [(5, Y 0)]),
            (Availability 1, LeExpr [(2, X 1)] [(2, Y 1)]),
            (AisleLimit, LeConst [(1, Y 0), (1, Y 1)] (int k))],
         objective = [(3, X 0), (4, X 1)],
         direction = Maximize \<rparr>"
  by (simp add: spec_formulation_def scenario_A_instance_def py_range_def units_of_def
      dict_values_def demanded_def dict_keys_def upt_rec)

section \<open>Claims about the formulation\<close>

text \<open>
  C4: for an instance whose item ids are in range and budgets \<open>k1 \<le> k2\<close>, the two
  formulations exist and differ only in the right-hand side of the aisle limit; every
  binary assignment feasible under \<open>k1\<close> is feasible under \<open>k2\<close>; and if the program for
  \<open>k1\<close> has an optimum then so has the program for \<open>k2\<close>, with an objective value at
  least as large.
\<close>

theorem budget_monotone:
  assumes "k1 \<le> k2"
    and "items_in_range (n_items inst) (orders inst)" "items_in_range (n_items inst) (aisles inst)"
  shows "\<exists>m1 m2. formulation_gurobi inst k1 = Inr m1 \<and> formulation_gurobi inst k2 = Inr m2
           \<and> m2 = set_aisle_limit (int k2) m1
           \<and> (\<forall>c. feasible m1 c \<longrightarrow> feasible m2 c)
           \<and> (\<forall>v1. optimum m1 (length (orders inst)) (length (aisles inst)) = Some v1 \<longrightarrow>
                 (\<exists>v2. optimum m2 (length (orders inst)) (length (aisles inst)) = Some v2
                       \<and> v1 \<le> v2))"
proof (intro exI conjI)
  show "formulation_gurobi inst k1 = Inr (spec_formulation inst k1)"
    and "formulation_gurobi inst k2 = Inr (spec_formulation inst k2)"
    using assms(2,3) by (rule formulation_gurobi_conv)+
  show "spec_formulation inst k2 = set_aisle_limit (int k2) (spec_formulation inst k1)"
    by (simp add: set_aisle_limit_spec)
  show "\<forall>c. feasible (spec_formulation inst k1) c \<longrightarrow> feasible (spec_formulation inst k2) c"
    using feasible_budget_mono [OF assms(1)] by blast
  show "\<forall>v1. optimum (spec_formulation inst k1) (length (orders inst)) (length (aisles inst)) = Some v1 \<longrightarrow>
                 (\<exists>v2. optimum (spec_formulation inst k2) (length (orders inst)) (length (aisles inst)) = Some v2
                       \<and> v1 \<le> v2)"
    using optimum_budget_mono [OF assms(1)] by blast
qed

theorem budget_monotone_witness:
  "(1 :: nat) \<le> 2
   \<and> items_in_range (n_items scenario_A_instance) (orders scenario_A_instance)
   \<and> items_in_range (n_items scenario_A_instance) (aisles scenario_A_instance)
   \<and> formulation_gurobi scenario_A_instance 1 = Inr (spec_formulation scenario_A_instance 1)
   \<and> formulation_gurobi scenario_A_instance 2 = Inr (spec_formulation scenario_A_instance 2)
   \<and> optimum (spec_formulation scenario_A_instance 1) 2 2 = Some 3
   \<and> (\<exists>v2. optimum (spec_formulation scenario_A_instance 2) 2 2 = Some v2 \<and> 3 \<le> v2)"
proof -
  have le: "(1 :: nat) \<le> 2" by simp
  have n: "length (orders scenario_A_instance) = 2" "length (aisles scenario_A_instance) = 2"
    by (simp_all add: scenario_A_instance_def)
  from budget_monotone [OF le scenario_A_items]
  obtain m1 m2 where m:
    "formulation_gurobi scenario_A_instance 1 = Inr m1"
    "formulation_gurobi scenario_A_instance 2 = Inr m2"
    "\<forall>v1. optimum m1 2 2 = Some v1 \<longrightarrow> (\<exists>v2. optimum m2 2 2 = Some v2 \<and> v1 \<le> v2)"
    unfolding n by blast
  have f: "formulation_gurobi scenario_A_instance 1 = Inr (spec_formulation scenario_A_instance 1)"
    "formulation_gurobi scenario_A_instance 2 = Inr (spec_formulation scenario_A_instance 2)"
    using scenario_A_items by (rule formulation_gurobi_conv)+
  with m(1,2) have "m1 = spec_formulation scenario_A_instance 1"
    "m2 = spec_formulation scenario_A_instance 2"
    by simp_all
  with m(3) scenario_A_optimum_1
  have "\<exists>v2. optimum (spec_formulation scenario_A_instance 2) 2 2 = Some v2 \<and> 3 \<le> v2"
    by blast
  with le scenario_A_items f scenario_A_optimum_1 show ?thesis
    by blast
qed

text \<open>
  C2: for an instance whose item ids are in range, and any budget \<open>k\<close>, both the gurobi
  scripts and the pulp script optimise exactly \<open>spec_formulation inst k\<close>: the two wave-size
  rows, one availability row for every item of \<open>range(n_items)\<close> that appears in at least
  one order and none for any other item, the aisle limit \<open>\<Sum> y \<le> k\<close>, and the objective
  \<open>\<Sum> total_units(o) * x\<close> to maximise. On dictionaries without repeated keys the row of
  item \<open>i\<close> holds under a binary assignment exactly when the demand of \<open>i\<close> over the selected
  orders is at most its supply over the selected aisles.
\<close>

theorem formulation_contents:
  assumes "items_in_range (n_items inst) (orders inst)" "items_in_range (n_items inst) (aisles inst)"
  shows "formulation_gurobi inst k = Inr (spec_formulation inst k)
       \<and> formulation_pulp inst k = Inr (spec_formulation inst k)
       \<and> map fst (constraints (spec_formulation inst k))
           = [WaveLB, WaveUB]
             @ map Availability (filter (demanded (orders inst)) (py_range (n_items inst)))
             @ [AisleLimit]
       \<and> (\<forall>i. (Availability i \<in> set (map fst (constraints (spec_formulation inst k))))
               = (0 \<le> i \<and> i < n_items inst \<and> demanded (orders inst) i))
       \<and> (list_all dict_ok (orders inst) \<and> list_all dict_ok (aisles inst) \<longrightarrow>
            (\<forall>i c so sa. map_of (constraints (spec_formulation inst k)) (Availability i) = Some c \<longrightarrow>
               satisfies (chosen so sa) c
                 = (selected_quantity (orders inst) so i \<le> selected_quantity (aisles inst) sa i)))"
proof (intro conjI)
  show "formulation_gurobi inst k = Inr (spec_formulation inst k)"
    using assms by (rule formulation_gurobi_conv)
  show "formulation_pulp inst k = Inr (spec_formulation inst k)"
    using assms by (rule formulation_pulp_conv)
  show "map fst (constraints (spec_formulation inst k))
           = [WaveLB, WaveUB]
             @ map Availability (filter (demanded (orders inst)) (py_range (n_items inst)))
             @ [AisleLimit]"
    by (rule availability_names)
  show "\<forall>i. (Availability i \<in> set (map fst (constraints (spec_formulation inst k))))
               = (0 \<le> i \<and> i < n_items inst \<and> demanded (orders inst) i)"
    unfolding availability_names
    by (auto simp: py_range_def image_iff intro: bexI [of _ "nat _"])
  show "list_all dict_ok (orders inst) \<and> list_all dict_ok (aisles inst) \<longrightarrow>
            (\<forall>i c so sa. map_of (constraints (spec_formulation inst k)) (Availability i) = Some c \<longrightarrow>
               satisfies (chosen so sa) c
                 = (selected_quantity (orders inst) so i \<le> selected_quantity (aisles inst) sa i))"
    by (auto simp: availability_lookup demand_expr_eval supply_expr_eval split: if_splits)
qed

theorem formulation_contents_witness:
  "items_in_range (n_items scenario_A_instance) (orders scenario_A_instance)
   \<and> items_in_range (n_items scenario_A_instance) (aisles scenario_A_instance)
   \<and> formulation_gurobi scenario_A_instance 2
       = Inr \<lparr> constraints =
                 [(WaveLB, GeConst [(3, X 0), (4, X 1)] 2),
                  (WaveUB, LeConst [(3, X 0), (4, X 1)] 5),
                  (Availability 0, LeExpr [(3, X 0), (2, X 1)] [(5, Y 0)]),
                  (Availability 1, LeExpr [(2, X 1)] [(2, Y 1)]),
                  (AisleLimit, LeConst [(1, Y 0), (1, Y 1)] 2)],
               objective = [(3, X 0), (4, X 1)],
               direction = Maximize \<rparr>
   \<and> formulation_pulp scenario_A_instance 2 = formulation_gurobi scenario_A_instance 2"
proof -
  note t = formulation_contents [OF scenario_A_items, of 2]
  from t have "formulation_gurobi scenario_A_instance 2 = Inr (spec_formulation scenario_A_instance 2)"
    and "formulation_pulp scenario_A_instance 2 = Inr (spec_formulation scenario_A_instance 2)"
    by blast+
  with scenario_A_items show ?thesis
    by (simp add: scenario_A_formulation)
qed

section \<open>Properties of the ratio sweep\<close>

subsection \<open>The loop of the gurobi scripts\<close>

lemma set_rhs_twice: "set_rhs k (set_rhs j c) = set_rhs k c"
  by (cases c) simp_all

lemma set_aisle_limit_twice:
  "set_aisle_limit k (set_aisle_limit j m) = set_aisle_limit k m"
  by (simp add: set_aisle_limit_def comp_def case_prod_unfold set_rhs_twice cong: map_cong)

lemma ratio_at_retained: "ratio_at solve (set_aisle_limit j model) k = ratio_at solve model k"
  by (simp add: ratio_at_def set_aisle_limit_twice)

lemma budgets_tried_append: "budgets_tried (xs @ ys) = budgets_tried xs @ budgets_tried ys"
  by (simp add: budgets_tried_def map_filter_def)

lemma record_optimum_tried:
  "budgets_tried (printed (record_optimum no na k v val st)) = budgets_tried (printed st) @ [k]"
  by (simp add: record_optimum_def Let_def budgets_tried_def map_filter_def)

lemma sweep_gurobi_tried:
  "sweep_gurobi solve no na model ks st = Inr st' \<Longrightarrow>
   budgets_tried (printed st') = budgets_tried (printed st) @ ks"
proof (induction ks arbitrary: model st)
  case Nil
  then show ?case by simp
next
  case (Cons k ks)
  show ?case
  proof (cases "solve (set_aisle_limit (int k) model)")
    case (Optimal v val)
    with Cons.prems Cons.IH [of "set_aisle_limit (int k) model" "record_optimum no na k v val st"]
    show ?thesis by (simp add: record_optimum_tried)
  next
    case NotOptimal
    with Cons.prems
      Cons.IH [of "set_aisle_limit (int k) model" "st\<lparr>printed := printed st @ [NoFeasible k]\<rparr>"]
    show ?thesis by (simp add: budgets_tried_def map_filter_def)
  next
    case Raised
    with Cons.prems show ?thesis by simp
  qed
qed

lemma sweep_gurobi_returns:
  "\<forall>k\<in>set ks. solve (set_aisle_limit (int k) model) \<noteq> Raised \<Longrightarrow>
   \<exists>st'. sweep_gurobi solve no na model ks st = Inr st'"
proof (induction ks arbitrary: model st)
  case Nil
  then show ?case by simp
next
  case (Cons k ks)
  have "\<forall>k'\<in>set ks. solve (set_aisle_limit (int k') (set_aisle_limit (int k) model)) \<noteq> Raised"
    using Cons.prems by (simp add: set_aisle_limit_twice)
  from Cons.IH [OF this] Cons.prems show ?case
    by (cases "solve (set_aisle_limit (int k) model)") auto
qed

lemma sweep_gurobi_raises:
  "\<exists>k\<in>set ks. solve (set_aisle_limit (int k) model) = Raised \<Longrightarrow>
   sweep_gurobi solve no na model ks st = Inl SolverError"
proof (induction ks arbitrary: model st)
  case Nil
  then show ?case by simp
next
  case (Cons k ks)
  show ?case
  proof (cases "solve (set_aisle_limit (int k) model) = Raised")
    case True
    then show ?thesis by simp
  next
    case False
    with Cons.prems
    have "\<exists>k'\<in>set ks. solve (set_aisle_limit (int k') (set_aisle_limit (int k) model)) = Raised"
      by (auto simp: set_aisle_limit_twice)
    from Cons.IH [OF this] False show ?thesis
      by (cases "solve (set_aisle_limit (int k) model)") auto
  qed
qed

text \<open>One step of the loop, as a function on states.\<close>

lemma record_optimum_cases:
  "record_optimum no na k v val st = st' \<Longrightarrow>
   (v / real k \<le> best_ratio st \<and> best_ratio st' = best_ratio st
       \<and> best_solution st' = best_solution st)
   \<or> (best_ratio st < v / real k \<and> best_ratio st' = v / real k
       \<and> best_solution st' = Some (selected_orders_of no val, selected_aisles_of na val))"
  by (auto simp: record_optimum_def Let_def split: if_splits)

lemma sweep_gurobi_mono:
  "sweep_gurobi solve no na model ks st = Inr st' \<Longrightarrow> best_ratio st \<le> best_ratio st'"
proof (induction ks arbitrary: model st)
  case Nil
  then show ?case by simp
next
  case (Cons k ks)
  show ?case
  proof (cases "solve (set_aisle_limit (int k) model)")
    case (Optimal v val)
    let ?st = "record_optimum no na k v val st"
    from Cons.prems Optimal
    have "sweep_gurobi solve no na (set_aisle_limit (int k) model) ks ?st = Inr st'"
      by simp
    from Cons.IH [OF this] record_optimum_cases [of no na k v val st ?st]
    show ?thesis by auto
  next
    case NotOptimal
    with Cons.prems
      Cons.IH [of "set_aisle_limit (int k) model" "st\<lparr>printed := printed st @ [NoFeasible k]\<rparr>"]
    show ?thesis by simp
  next
    case Raised
    with Cons.prems show ?thesis by simp
  qed
qed

lemma sweep_gurobi_upper:
  "sweep_gurobi solve no na model ks st = Inr st' \<Longrightarrow>
   k \<in> set ks \<Longrightarrow> ratio_at solve model k = Some r \<Longrightarrow> r \<le> best_ratio st'"
proof (induction ks arbitrary: model st)
  case Nil
  then show ?case by simp
next
  case (Cons j ks)
  let ?m = "set_aisle_limit (int j) model"
  show ?case
  proof (cases "solve ?m")
    case (Optimal v val)
    let ?st = "record_optimum no na j v val st"
    from Cons.prems Optimal
    have run: "sweep_gurobi solve no na ?m ks ?st = Inr st'"
      by simp
    show ?thesis
    proof (cases "k = j")
      case True
      with Cons.prems Optimal have "r = v / real j"
        by (simp add: ratio_at_def)
      moreover have "v / real j \<le> best_ratio ?st"
        using record_optimum_cases [of no na j v val st ?st] by auto
      ultimately show ?thesis
        using sweep_gurobi_mono [OF run] by simp
    next
      case False
      with Cons.prems have "k \<in> set ks" by simp
      from Cons.IH [OF run this] Cons.prems show ?thesis
        by (simp add: ratio_at_retained)
    qed
  next
    case NotOptimal
    let ?st = "st\<lparr>printed := printed st @ [NoFeasible j]\<rparr>"
    from Cons.prems NotOptimal
    have run: "sweep_gurobi solve no na ?m ks ?st = Inr st'"
      by simp
    from Cons.prems NotOptimal have "k \<noteq> j"
      by (auto simp: ratio_at_def)
    with Cons.prems have "k \<in> set ks" by simp
    from Cons.IH [OF run this] Cons.prems show ?thesis
      by (simp add: ratio_at_retained)
  next
    case Raised
    with Cons.prems show ?thesis by simp
  qed
qed


lemma sweep_gurobi_origin:
  "sweep_gurobi solve no na model ks st = Inr st' \<Longrightarrow>
   (best_ratio st' = best_ratio st \<and> best_solution st' = best_solution st)
   \<or> (\<exists>ks1 k ks2 v val.
         ks = ks1 @ k # ks2
         \<and> solve (set_aisle_limit (int k) model) = Optimal v val
         \<and> best_ratio st' = v / real k
         \<and> best_ratio st < v / real k
         \<and> best_solution st' = Some (selected_orders_of no val, selected_aisles_of na val)
         \<and> (\<forall>k'\<in>set ks1. \<forall>r. ratio_at solve model k' = Some r \<longrightarrow> r < v / real k))"
proof (induction ks arbitrary: model st)
  case Nil
  then show ?case by simp
next
  case (Cons j ks)
  let ?m = "set_aisle_limit (int j) model"
  show ?case
  proof (cases "solve ?m")
    case Raised
    with Cons.prems show ?thesis by simp
  next
    case NotOptimal
    let ?st = "st\<lparr>printed := printed st @ [NoFeasible j]\<rparr>"
    from Cons.prems NotOptimal
    have run: "sweep_gurobi solve no na ?m ks ?st = Inr st'"
      by simp
    have none: "ratio_at solve model j = None"
      using NotOptimal by (simp add: ratio_at_def)
    from Cons.IH [OF run] show ?thesis
    proof
      assume "best_ratio st' = best_ratio ?st \<and> best_solution st' = best_solution ?st"
      then show ?thesis by simp
    next
      assume "\<exists>ks1 k ks2 v val.
         ks = ks1 @ k # ks2
         \<and> solve (set_aisle_limit (int k) ?m) = Optimal v val
         \<and> best_ratio st' = v / real k
         \<and> best_ratio ?st < v / real k
         \<and> best_solution st' = Some (selected_orders_of no val, selected_aisles_of na val)
         \<and> (\<forall>k'\<in>set ks1. \<forall>r. ratio_at solve ?m k' = Some r \<longrightarrow> r < v / real k)"
      then obtain ks1 k ks2 v val where w:
        "ks = ks1 @ k # ks2"
        "solve (set_aisle_limit (int k) model) = Optimal v val"
        "best_ratio st' = v / real k"
        "best_ratio st < v / real k"
        "best_solution st' = Some (selected_orders_of no val, selected_aisles_of na val)"
        "\<forall>k'\<in>set ks1. \<forall>r. ratio_at solve model k' = Some r \<longrightarrow> r < v / real k"
        by (auto simp: set_aisle_limit_twice ratio_at_retained)
      have "j # ks = (j # ks1) @ k # ks2"
        using w(1) by simp
      moreover have "\<forall>k'\<in>set (j # ks1). \<forall>r. ratio_at solve model k' = Some r \<longrightarrow> r < v / real k"
        using w(6) none by simp
      ultimately show ?thesis
        using w(2-5) by blast
    qed
  next
    case (Optimal vj valj)
    let ?st = "record_optimum no na j vj valj st"
    from Cons.prems Optimal
    have run: "sweep_gurobi solve no na ?m ks ?st = Inr st'"
      by simp
    have rj: "ratio_at solve model j = Some (vj / real j)"
      using Optimal by (simp add: ratio_at_def)
    note step = record_optimum_cases [of no na j vj valj st ?st, OF refl]
    from Cons.IH [OF run] show ?thesis
    proof
      assume same: "best_ratio st' = best_ratio ?st \<and> best_solution st' = best_solution ?st"
      from step show ?thesis
      proof
        assume "vj / real j \<le> best_ratio st \<and> best_ratio ?st = best_ratio st
                \<and> best_solution ?st = best_solution st"
        with same show ?thesis by simp
      next
        assume new: "best_ratio st < vj / real j \<and> best_ratio ?st = vj / real j
                \<and> best_solution ?st = Some (selected_orders_of no valj, selected_aisles_of na valj)"
        have "j # ks = [] @ j # ks" by simp
        moreover have "\<forall>k'\<in>set []. \<forall>r. ratio_at solve model k' = Some r \<longrightarrow> r < vj / real j"
          by simp
        ultimately show ?thesis
          using Optimal new same by (metis (no_types, lifting))
      qed
    next
      assume "\<exists>ks1 k ks2 v val.
         ks = ks1 @ k # ks2
         \<and> solve (set_aisle_limit (int k) ?m) = Optimal v val
         \<and> best_ratio st' = v / real k
         \<and> best_ratio ?st < v / real k
         \<and> best_solution st' = Some (selected_orders_of no val, selected_aisles_of na val)
         \<and> (\<forall>k'\<in>set ks1. \<forall>r. ratio_at solve ?m k' = Some r \<longrightarrow> r < v / real k)"
      then obtain ks1 k ks2 v val where w:
        "ks = ks1 @ k # ks2"
        "solve (set_aisle_limit (int k) model) = Optimal v val"
        "best_ratio st' = v / real k"
        "best_ratio ?st < v / real k"
        "best_solution st' = Some (selected_orders_of no val, selected_aisles_of na val)"
        "\<forall>k'\<in>set ks1. \<forall>r. ratio_at solve model k' = Some r \<longrightarrow> r < v / real k"
        by (auto simp: set_aisle_limit_twice ratio_at_retained)
      have below: "vj / real j \<le> best_ratio ?st" "best_ratio st \<le> best_ratio ?st"
        using step by auto
      have "j # ks = (j # ks1) @ k # ks2"
        using w(1) by simp
      moreover have "\<forall>k'\<in>set (j # ks1). \<forall>r. ratio_at solve model k' = Some r \<longrightarrow> r < v / real k"
        using w(6) w(4) below rj by auto
      moreover have "best_ratio st < v / real k"
        using w(4) below by simp
      ultimately show ?thesis
        using w(2,3,5) by blast
    qed
  qed
qed


lemma upt_split_before:
  assumes "[a..<b] = ks1 @ k # ks2" "a \<le> k'" "k' < k"
  shows "k' \<in> set ks1"
proof -
  have s: "sorted (ks1 @ k # ks2)" and d: "distinct (ks1 @ k # ks2)"
    using assms(1) by (metis sorted_upt, metis distinct_upt)
  have "k \<in> set [a..<b]" using assms(1) by simp
  then have "k' \<in> set [a..<b]" using assms(2,3) by simp
  then have "k' \<in> set ks1 \<or> k' = k \<or> k' \<in> set ks2"
    using assms(1) by auto
  moreover have "\<forall>y\<in>set ks2. k \<le> y"
    using s by (simp add: sorted_append)
  ultimately show ?thesis using assms(3) by auto
qed

subsection \<open>The retained solution of a whole sweep\<close>

lemma sweep_gurobi_lowest_budget:
  assumes "\<forall>k\<in>{1..n}. solve (set_aisle_limit (int k) model) \<noteq> Raised"
  shows "\<exists>st. sweep_gurobi solve no na model [1..<Suc n] initial_state = Inr st
     \<and> budgets_tried (printed st) = [1..<Suc n]
     \<and> (\<forall>sol. best_solution st = Some sol \<longrightarrow>
          (\<exists>k v val. 1 \<le> k \<and> k \<le> n
             \<and> solve (set_aisle_limit (int k) model) = Optimal v val
             \<and> sol = (selected_orders_of no val, selected_aisles_of na val)
             \<and> best_ratio st = v / real k
             \<and> (\<forall>k' r. 1 \<le> k' \<and> k' \<le> n \<and> ratio_at solve model k' = Some r \<longrightarrow> r \<le> v / real k)
             \<and> (\<forall>k' r. 1 \<le> k' \<and> k' < k \<and> ratio_at solve model k' = Some r \<longrightarrow> r < v / real k)))
     \<and> ((\<exists>k r. 1 \<le> k \<and> k \<le> n \<and> ratio_at solve model k = Some r \<and> 0 < r)
          \<longrightarrow> best_solution st \<noteq> None)"
proof -
  have "\<forall>k\<in>set [1..<Suc n]. solve (set_aisle_limit (int k) model) \<noteq> Raised"
    using assms by auto
  from sweep_gurobi_returns [OF this]
  obtain st where run: "sweep_gurobi solve no na model [1..<Suc n] initial_state = Inr st"
    by blast
  have tried: "budgets_tried (printed st) = [1..<Suc n]"
    using sweep_gurobi_tried [OF run] by (simp add: initial_state_def budgets_tried_def map_filter_def)
  have upper: "\<forall>k' r. 1 \<le> k' \<and> k' \<le> n \<and> ratio_at solve model k' = Some r \<longrightarrow> r \<le> best_ratio st"
  proof (intro allI impI)
    fix k' r assume a: "1 \<le> k' \<and> k' \<le> n \<and> ratio_at solve model k' = Some r"
    then have "k' \<in> set [1..<Suc n]" by auto
    with a show "r \<le> best_ratio st"
      using sweep_gurobi_upper [OF run] by blast
  qed
  note origin = sweep_gurobi_origin [OF run]
  have first: "\<forall>sol. best_solution st = Some sol \<longrightarrow>
          (\<exists>k v val. 1 \<le> k \<and> k \<le> n
             \<and> solve (set_aisle_limit (int k) model) = Optimal v val
             \<and> sol = (selected_orders_of no val, selected_aisles_of na val)
             \<and> best_ratio st = v / real k
             \<and> (\<forall>k' r. 1 \<le> k' \<and> k' \<le> n \<and> ratio_at solve model k' = Some r \<longrightarrow> r \<le> v / real k)
             \<and> (\<forall>k' r. 1 \<le> k' \<and> k' < k \<and> ratio_at solve model k' = Some r \<longrightarrow> r < v / real k))"
  proof (intro allI impI)
    fix sol assume sol: "best_solution st = Some sol"
    with origin obtain ks1 k ks2 v val where w:
      "[1..<Suc n] = ks1 @ k # ks2"
      "solve (set_aisle_limit (int k) model) = Optimal v val"
      "best_ratio st = v / real k"
      "best_solution st = Some (selected_orders_of no val, selected_aisles_of na val)"
      "\<forall>k'\<in>set ks1. \<forall>r. ratio_at solve model k' = Some r \<longrightarrow> r < v / real k"
      by (auto simp: initial_state_def)
    have "k \<in> set [1..<Suc n]" using w(1) by simp
    then have k: "1 \<le> k" "k \<le> n" by auto
    have before: "\<forall>k' r. 1 \<le> k' \<and> k' < k \<and> ratio_at solve model k' = Some r \<longrightarrow> r < v / real k"
      using w(5) upt_split_before [OF w(1)] by blast
    have "\<forall>k' r. 1 \<le> k' \<and> k' \<le> n \<and> ratio_at solve model k' = Some r \<longrightarrow> r \<le> v / real k"
      using upper unfolding w(3) .
    with k w(2,3,4) sol before
    show "\<exists>k v val. 1 \<le> k \<and> k \<le> n
             \<and> solve (set_aisle_limit (int k) model) = Optimal v val
             \<and> sol = (selected_orders_of no val, selected_aisles_of na val)
             \<and> best_ratio st = v / real k
             \<and> (\<forall>k' r. 1 \<le> k' \<and> k' \<le> n \<and> ratio_at solve model k' = Some r \<longrightarrow> r \<le> v / real k)
             \<and> (\<forall>k' r. 1 \<le> k' \<and> k' < k \<and> ratio_at solve model k' = Some r \<longrightarrow> r < v / real k)"
      by (intro exI [of _ k] exI [of _ v] exI [of _ val]) simp
  qed
  have some: "(\<exists>k r. 1 \<le> k \<and> k \<le> n \<and> ratio_at solve model k = Some r \<and> 0 < r)
          \<longrightarrow> best_solution st \<noteq> None"
  proof (intro impI notI)
    assume ex: "\<exists>k r. 1 \<le> k \<and> k \<le> n \<and> ratio_at solve model k = Some r \<and> 0 < r"
      and none: "best_solution st = None"
    from origin none have "best_ratio st = 0"
      by (auto simp: initial_state_def)
    with ex upper show False by force
  qed
  from run tried first some show ?thesis by blast
qed

subsection \<open>The sweep on the tie instance\<close>

lemma tie_solver_spec:
  "tie_solver (spec_formulation tie_instance k)
     = (if k = 1 then Optimal 2 (indicator [0] [0])
        else if k = 2 then Optimal 4 (indicator [0, 1] [0, 1])
        else NotOptimal)"
  by (simp add: tie_solver_def aisle_limit_spec)

lemma upt_1_3: "[1..<Suc 2] = [1, 2]"
  by (simp add: upt_rec)

lemma tie_run:
  "sweep_gurobi tie_solver 2 2 (spec_formulation tie_instance 1) [1..<Suc 2] initial_state
     = Inr \<lparr> best_ratio = 2, best_solution = Some ([0], [0]),
             printed = [Progress 1 2 2, NewBest 2 1 1, Progress 2 4 2] \<rparr>"
  unfolding upt_1_3
  by (simp add: Let_def set_aisle_limit_spec_nat tie_solver_spec record_optimum_def
      initial_state_def selected_orders_of_def selected_aisles_of_def indicator_def upt_rec)

subsection \<open>The whole of solve_instance\<close>

lemma solve_instance_conv:
  assumes "items_in_range (n_items inst) (orders inst)" "items_in_range (n_items inst) (aisles inst)"
  shows "solve_instance solve inst =
     (case sweep_gurobi solve (length (orders inst)) (length (aisles inst)) (spec_formulation inst 1)
             [1..<Suc (length (aisles inst))] initial_state of
        Inl e \<Rightarrow> Inl e
      | Inr st \<Rightarrow>
          (case best_solution st of
             Some best \<Rightarrow>
               Inr \<lparr> output_file = Some best, stdout = printed st @ [Concluded (best_ratio st)] \<rparr>
           | None \<Rightarrow> Inr \<lparr> output_file = None, stdout = printed st @ [NotFound] \<rparr>))"
  using assms build_model_conv [of inst 1]
  by (simp add: solve_instance_def with_indices_def build_index_conv)


subsection \<open>The sweep on scenario D\<close>

lemma scenario_D_items:
  "items_in_range (n_items scenario_D) (orders scenario_D)"
  "items_in_range (n_items scenario_D) (aisles scenario_D)"
  by (simp_all add: items_in_range_def scenario_D_def dict_keys_def)

lemma scenario_D_sweep:
  "sweep_gurobi infeasible_solver 2 2 (spec_formulation scenario_D 1) [1..<Suc 2] initial_state
     = Inr \<lparr> best_ratio = 0, best_solution = None, printed = [NoFeasible 1, NoFeasible 2] \<rparr>"
  unfolding upt_1_3
  by (simp add: Let_def infeasible_solver_def initial_state_def)

lemma scenario_D_run:
  "solve_instance infeasible_solver scenario_D
     = Inr \<lparr> output_file = None, stdout = [NoFeasible 1, NoFeasible 2, NotFound] \<rparr>"
proof -
  have n: "length (aisles scenario_D) = 2" "length (orders scenario_D) = 2"
    by (simp_all add: scenario_D_def)
  show ?thesis
    unfolding solve_instance_conv [OF scenario_D_items] n scenario_D_sweep
    by simp
qed

subsection \<open>The invariant of the sweep\<close>

lemma eval_lin_zero:
  "\<forall>t\<in>set e. val (snd t) = 0 \<Longrightarrow> eval_lin val e = 0"
  by (induction e) auto

lemma selected_orders_nonempty:
  fixes val :: "var \<Rightarrow> real"
  assumes "0 < eval_lin val (units_expr os)"
    and "\<forall>j<length os. val (X j) = 0 \<or> val (X j) = 1"
  shows "selected_orders_of (length os) val \<noteq> []"
proof
  assume "selected_orders_of (length os) val = []"
  then have "\<forall>j<length os. \<not> val (X j) > 1 / 2"
    by (auto simp: selected_orders_of_def filter_empty_conv)
  with assms(2) have "\<forall>j<length os. val (X j) = 0"
    by force
  then have "\<forall>t\<in>set (units_expr os). val (snd t) = 0"
    by (auto simp: units_expr_def)
  from eval_lin_zero [OF this] assms(1) show False
    by simp
qed

lemma record_optimum_inv:
  assumes "sweep_inv st" "0 < v \<longrightarrow> selected_orders_of no val \<noteq> []"
  shows "sweep_inv (record_optimum no na k v val st)"
proof (cases "v / real k > best_ratio st")
  case True
  with assms(1) have "0 < v / real k"
    by (simp add: sweep_inv_def)
  moreover from this have "0 < v"
    by (simp add: zero_less_divide_iff)
  ultimately show ?thesis
    using assms True by (auto simp: sweep_inv_def record_optimum_def Let_def)
next
  case False
  with assms(1) show ?thesis
    by (auto simp: sweep_inv_def record_optimum_def Let_def)
qed

lemma sweep_inv_printed:
  "sweep_inv st \<Longrightarrow> sweep_inv (st\<lparr>printed := printed st @ [NoFeasible k]\<rparr>)"
  by (auto simp: sweep_inv_def)

lemma sweep_inv_initial: "sweep_inv initial_state"
  by (simp add: sweep_inv_def initial_state_def)

lemma sweep_gurobi_inv:
  assumes "\<forall>k\<in>set ks. \<forall>v val. solve (set_aisle_limit (int k) model) = Optimal v val
             \<longrightarrow> 0 < v \<longrightarrow> selected_orders_of no val \<noteq> []"
    and "sweep_inv st"
    and "sweep_gurobi solve no na model ks st = Inr st'"
  shows "sweep_inv st'"
  using assms
proof (induction ks arbitrary: model st)
  case Nil
  then show ?case by simp
next
  case (Cons k ks)
  let ?m = "set_aisle_limit (int k) model"
  have c: "\<forall>k'\<in>set ks. \<forall>v val. solve (set_aisle_limit (int k') ?m) = Optimal v val
             \<longrightarrow> 0 < v \<longrightarrow> selected_orders_of no val \<noteq> []"
    using Cons.prems(1) by (simp add: set_aisle_limit_twice)
  show ?case
  proof (cases "solve ?m")
    case (Optimal v val)
    with Cons.prems(1) have "0 < v \<longrightarrow> selected_orders_of no val \<noteq> []"
      by simp
    from record_optimum_inv [OF Cons.prems(2) this]
    have "sweep_inv (record_optimum no na k v val st)" .
    from Cons.IH [OF c this] Cons.prems(3) Optimal show ?thesis
      by simp
  next
    case NotOptimal
    from Cons.IH [OF c sweep_inv_printed [OF Cons.prems(2)]] Cons.prems(3) NotOptimal
    show ?thesis by simp
  next
    case Raised
    with Cons.prems(3) show ?thesis by simp
  qed
qed

lemma sweep_pulp_inv:
  assumes "\<forall>k\<in>set ks. \<forall>m v val. build_model inst ito ita (int k) = Inr m \<and> solve m = Optimal v val
             \<longrightarrow> 0 < eval_lin val (objective m)
             \<longrightarrow> selected_orders_of (length (orders inst)) val \<noteq> []"
    and "sweep_inv st"
    and "sweep_pulp solve inst ito ita ks st = Inr st'"
  shows "sweep_inv st'"
  using assms
proof (induction ks arbitrary: st)
  case Nil
  then show ?case by simp
next
  case (Cons k ks)
  have c: "\<forall>k\<in>set ks. \<forall>m v val. build_model inst ito ita (int k) = Inr m \<and> solve m = Optimal v val
             \<longrightarrow> 0 < eval_lin val (objective m)
             \<longrightarrow> selected_orders_of (length (orders inst)) val \<noteq> []"
    using Cons.prems(1) by (meson list.set_intros(2))
  show ?case
  proof (cases "build_model inst ito ita (int k)")
    case (Inl e)
    with Cons.prems(3) show ?thesis by simp
  next
    case (Inr m)
    show ?thesis
    proof (cases "solve m")
      case (Optimal v val)
      with Cons.prems(1) Inr
      have "0 < eval_lin val (objective m) \<longrightarrow> selected_orders_of (length (orders inst)) val \<noteq> []"
        by simp
      from record_optimum_inv [OF Cons.prems(2) this]
      have "sweep_inv (record_optimum (length (orders inst)) (length (aisles inst)) k
                         (eval_lin val (objective m)) val st)" .
      from Cons.IH [OF c this] Cons.prems(3) Inr Optimal show ?thesis
        by (simp add: Let_def split: if_splits)
    next
      case NotOptimal
      from Cons.IH [OF c sweep_inv_printed [OF Cons.prems(2)]] Cons.prems(3) Inr NotOptimal
      show ?thesis by simp
    next
      case Raised
      with Cons.prems(3) Inr show ?thesis by simp
    qed
  qed
qed

lemma build_model_objective:
  "build_model inst ito ita b = Inr m \<Longrightarrow> objective m = units_expr (orders inst)"
  by (auto simp: build_model_def split: sum.splits)

lemma set_aisle_limit_objective: "objective (set_aisle_limit k m) = objective m"
  by (simp add: set_aisle_limit_def)


subsection \<open>The pulp sweep on the tie instance\<close>

lemma tie_objective:
  "eval_lin val (objective (spec_formulation tie_instance k)) = 2 * val (X 0) + 2 * val (X 1)"
  by (simp add: spec_formulation_def tie_instance_def units_of_def dict_values_def upt_rec)

lemma tie_lengths: "length (orders tie_instance) = 2" "length (aisles tie_instance) = 2"
  by (simp_all add: tie_instance_def)

lemma tie_build:
  "build_model tie_instance (index_of (n_items tie_instance) (orders tie_instance))
     (index_of (n_items tie_instance) (aisles tie_instance)) (int k)
     = Inr (spec_formulation tie_instance k)"
  by (rule build_model_conv)

lemma tie_orders_used: "\<not> unused_order_variable (orders tie_instance)"
  by (simp add: unused_order_variable_def tie_instance_def dict_values_def)

lemma tie_run_pulp:
  "sweep_pulp tie_solver tie_instance (index_of (n_items tie_instance) (orders tie_instance))
     (index_of (n_items tie_instance) (aisles tie_instance)) [1, 2] initial_state
     = Inr \<lparr> best_ratio = 2, best_solution = Some ([0], [0]),
             printed = [Progress 1 2 2, NewBest 2 1 1, Progress 2 4 2] \<rparr>"
  using tie_build [of 1] tie_build [of 2] tie_orders_used
  by (simp add: tie_solver_spec tie_objective tie_lengths record_optimum_def Let_def
      initial_state_def selected_orders_of_def selected_aisles_of_def indicator_def upt_rec)

lemma indicator_binary: "indicator so sa v = 0 \<or> indicator so sa v = 1"
  by (cases v) (simp_all add: indicator_def)

subsection \<open>Claims about the sweep\<close>

text \<open>
  C3: on an instance whose item ids are in range, when no optimisation raises,
  \<open>solve_instance\<close> of \<open>challenge-sbpo-2025/math_solve.py\<close> optimises once for every budget
  \<open>k = 1, ..., len(aisles)\<close> in this order (one printed line per budget, none skipped),
  and the solution it writes out is the one reported at a budget \<open>k\<close> whose ratio is the
  largest of all budgets and strictly larger than the ratio of every smaller budget: of
  several budgets with the maximal ratio the lowest wins. A solution is written as soon as
  some budget has a positive ratio.
\<close>

theorem solve_instance_lowest_budget_wins:
  assumes "items_in_range (n_items inst) (orders inst)" "items_in_range (n_items inst) (aisles inst)"
    and "\<forall>k\<in>{1..length (aisles inst)}. solve (spec_formulation inst k) \<noteq> Raised"
  shows "\<exists>out. solve_instance solve inst = Inr out
     \<and> budgets_tried (stdout out) = [1..<Suc (length (aisles inst))]
     \<and> (\<forall>sol. output_file out = Some sol \<longrightarrow>
          (\<exists>k v val. 1 \<le> k \<and> k \<le> length (aisles inst)
             \<and> solve (spec_formulation inst k) = Optimal v val
             \<and> sol = (selected_orders_of (length (orders inst)) val,
                      selected_aisles_of (length (aisles inst)) val)
             \<and> (\<forall>k' v' val'. 1 \<le> k' \<and> k' \<le> length (aisles inst)
                    \<and> solve (spec_formulation inst k') = Optimal v' val'
                  \<longrightarrow> v' / real k' \<le> v / real k)
             \<and> (\<forall>k' v' val'. 1 \<le> k' \<and> k' < k
                    \<and> solve (spec_formulation inst k') = Optimal v' val'
                  \<longrightarrow> v' / real k' < v / real k)))
     \<and> ((\<exists>k v val. 1 \<le> k \<and> k \<le> length (aisles inst)
            \<and> solve (spec_formulation inst k) = Optimal v val \<and> 0 < v / real k)
          \<longrightarrow> output_file out \<noteq> None)"
proof -
  let ?n = "length (aisles inst)"
  let ?no = "length (orders inst)"
  let ?M = "spec_formulation inst 1"
  have at: "\<And>k. set_aisle_limit (int k) ?M = spec_formulation inst k"
    by (rule set_aisle_limit_spec)
  have ratio: "\<And>k r. (ratio_at solve ?M k = Some r)
                 = (\<exists>v val. solve (spec_formulation inst k) = Optimal v val \<and> r = v / real k)"
    unfolding ratio_at_def at by (auto split: solve_result.splits)
  have "\<forall>k\<in>{1..?n}. solve (set_aisle_limit (int k) ?M) \<noteq> Raised"
    using assms(3) unfolding at .
  from sweep_gurobi_lowest_budget [OF this, of ?no ?n]
  obtain st where st:
    "sweep_gurobi solve ?no ?n ?M [1..<Suc ?n] initial_state = Inr st"
    "budgets_tried (printed st) = [1..<Suc ?n]"
    "\<forall>sol. best_solution st = Some sol \<longrightarrow>
          (\<exists>k v val. 1 \<le> k \<and> k \<le> ?n
             \<and> solve (set_aisle_limit (int k) ?M) = Optimal v val
             \<and> sol = (selected_orders_of ?no val, selected_aisles_of ?n val)
             \<and> best_ratio st = v / real k
             \<and> (\<forall>k' r. 1 \<le> k' \<and> k' \<le> ?n \<and> ratio_at solve ?M k' = Some r \<longrightarrow> r \<le> v / real k)
             \<and> (\<forall>k' r. 1 \<le> k' \<and> k' < k \<and> ratio_at solve ?M k' = Some r \<longrightarrow> r < v / real k))"
    "(\<exists>k r. 1 \<le> k \<and> k \<le> ?n \<and> ratio_at solve ?M k = Some r \<and> 0 < r)
          \<longrightarrow> best_solution st \<noteq> None"
    by blast
  let ?out = "case best_solution st of
                Some best \<Rightarrow> \<lparr> output_file = Some best,
                                stdout = printed st @ [Concluded (best_ratio st)] \<rparr>
              | None \<Rightarrow> \<lparr> output_file = None, stdout = printed st @ [NotFound] \<rparr>"
  have run: "solve_instance solve inst = Inr ?out"
    using st(1) by (simp add: solve_instance_conv [OF assms(1,2)] split: option.splits)
  have written: "output_file ?out = best_solution st"
    by (simp split: option.splits)
  have tried: "budgets_tried (stdout ?out) = [1..<Suc ?n]"
  proof -
    have e: "budgets_tried [Concluded (best_ratio st)] = []" "budgets_tried [NotFound] = []"
      by (simp_all add: budgets_tried_def map_filter_def)
    have "budgets_tried (stdout ?out) = budgets_tried (printed st)"
      by (cases "best_solution st") (simp_all add: budgets_tried_append e)
    with st(2) show ?thesis by (simp only:)
  qed
  have first: "\<forall>sol. output_file ?out = Some sol \<longrightarrow>
          (\<exists>k v val. 1 \<le> k \<and> k \<le> ?n
             \<and> solve (spec_formulation inst k) = Optimal v val
             \<and> sol = (selected_orders_of ?no val, selected_aisles_of ?n val)
             \<and> (\<forall>k' v' val'. 1 \<le> k' \<and> k' \<le> ?n
                    \<and> solve (spec_formulation inst k') = Optimal v' val'
                  \<longrightarrow> v' / real k' \<le> v / real k)
             \<and> (\<forall>k' v' val'. 1 \<le> k' \<and> k' < k
                    \<and> solve (spec_formulation inst k') = Optimal v' val'
                  \<longrightarrow> v' / real k' < v / real k))"
  proof (intro allI impI)
    fix sol assume "output_file ?out = Some sol"
    then have "best_solution st = Some sol"
      by (simp only: written)
    with st(3) obtain k v val where w:
      "1 \<le> k" "k \<le> ?n" "solve (spec_formulation inst k) = Optimal v val"
      "sol = (selected_orders_of ?no val, selected_aisles_of ?n val)"
      "\<forall>k' r. 1 \<le> k' \<and> k' \<le> ?n \<and> ratio_at solve ?M k' = Some r \<longrightarrow> r \<le> v / real k"
      "\<forall>k' r. 1 \<le> k' \<and> k' < k \<and> ratio_at solve ?M k' = Some r \<longrightarrow> r < v / real k"
      unfolding at by blast
    have a: "\<forall>k' v' val'. 1 \<le> k' \<and> k' \<le> ?n
                    \<and> solve (spec_formulation inst k') = Optimal v' val'
                  \<longrightarrow> v' / real k' \<le> v / real k"
    proof (intro allI impI)
      fix k' v' val'
      assume h: "1 \<le> k' \<and> k' \<le> ?n \<and> solve (spec_formulation inst k') = Optimal v' val'"
      then have "ratio_at solve ?M k' = Some (v' / real k')"
        unfolding ratio by blast
      with w(5) h show "v' / real k' \<le> v / real k" by blast
    qed
    have b: "\<forall>k' v' val'. 1 \<le> k' \<and> k' < k
                    \<and> solve (spec_formulation inst k') = Optimal v' val'
                  \<longrightarrow> v' / real k' < v / real k"
    proof (intro allI impI)
      fix k' v' val'
      assume h: "1 \<le> k' \<and> k' < k \<and> solve (spec_formulation inst k') = Optimal v' val'"
      then have "ratio_at solve ?M k' = Some (v' / real k')"
        unfolding ratio by blast
      with w(6) h show "v' / real k' < v / real k" by blast
    qed
    from w(1-4) a b
    show "\<exists>k v val. 1 \<le> k \<and> k \<le> ?n
             \<and> solve (spec_formulation inst k) = Optimal v val
             \<and> sol = (selected_orders_of ?no val, selected_aisles_of ?n val)
             \<and> (\<forall>k' v' val'. 1 \<le> k' \<and> k' \<le> ?n
                    \<and> solve (spec_formulation inst k') = Optimal v' val'
                  \<longrightarrow> v' / real k' \<le> v / real k)
             \<and> (\<forall>k' v' val'. 1 \<le> k' \<and> k' < k
                    \<and> solve (spec_formulation inst k') = Optimal v' val'
                  \<longrightarrow> v' / real k' < v / real k)"
      by (intro exI [of _ k] exI [of _ v] exI [of _ val] conjI)
  qed
  have some: "(\<exists>k v val. 1 \<le> k \<and> k \<le> ?n
            \<and> solve (spec_formulation inst k) = Optimal v val \<and> 0 < v / real k)
          \<longrightarrow> output_file ?out \<noteq> None"
  proof (intro impI)
    assume "\<exists>k v val. 1 \<le> k \<and> k \<le> ?n
            \<and> solve (spec_formulation inst k) = Optimal v val \<and> 0 < v / real k"
    then obtain k v val where h: "1 \<le> k" "k \<le> ?n"
      "solve (spec_formulation inst k) = Optimal v val" "0 < v / real k"
      by blast
    then have "ratio_at solve ?M k = Some (v / real k)"
      unfolding ratio by blast
    with h(1,2,4) st(4) have "best_solution st \<noteq> None"
      by blast
    then show "output_file ?out \<noteq> None"
      unfolding written .
  qed
  show ?thesis
    by (rule exI [of _ ?out]) (intro conjI run tried first some)
qed

lemma tie_items:
  "items_in_range (n_items tie_instance) (orders tie_instance)"
  "items_in_range (n_items tie_instance) (aisles tie_instance)"
  by (simp_all add: items_in_range_def tie_instance_def dict_keys_def)

lemma tie_solve_instance:
  "solve_instance tie_solver tie_instance
     = Inr \<lparr> output_file = Some ([0], [0]),
             stdout = [Progress 1 2 2, NewBest 2 1 1, Progress 2 4 2, Concluded 2] \<rparr>"
  unfolding solve_instance_conv [OF tie_items] tie_lengths tie_run
  by simp

theorem solve_instance_lowest_budget_wins_witness:
  "items_in_range (n_items tie_instance) (orders tie_instance)
   \<and> items_in_range (n_items tie_instance) (aisles tie_instance)
   \<and> tie_solver (spec_formulation tie_instance 1) = Optimal 2 (indicator [0] [0])
   \<and> tie_solver (spec_formulation tie_instance 2) = Optimal 4 (indicator [0, 1] [0, 1])
   \<and> solve_instance tie_solver tie_instance
       = Inr \<lparr> output_file = Some ([0], [0]),
               stdout = [Progress 1 2 2, NewBest 2 1 1, Progress 2 4 2, Concluded 2] \<rparr>
   \<and> (\<exists>k v val. 1 \<le> k \<and> k \<le> length (aisles tie_instance)
         \<and> tie_solver (spec_formulation tie_instance k) = Optimal v val
         \<and> ([0], [0]) = (selected_orders_of (length (orders tie_instance)) val,
                         selected_aisles_of (length (aisles tie_instance)) val)
         \<and> (\<forall>k' v' val'. 1 \<le> k' \<and> k' < k
                \<and> tie_solver (spec_formulation tie_instance k') = Optimal v' val'
              \<longrightarrow> v' / real k' < v / real k))"
proof -
  have s: "tie_solver (spec_formulation tie_instance 1) = Optimal 2 (indicator [0] [0])"
    "tie_solver (spec_formulation tie_instance 2) = Optimal 4 (indicator [0, 1] [0, 1])"
    by (simp_all add: tie_solver_spec)
  have h: "\<forall>k\<in>{1..length (aisles tie_instance)}.
             tie_solver (spec_formulation tie_instance k) \<noteq> Raised"
    by (simp add: tie_solver_spec)
  from solve_instance_lowest_budget_wins [OF tie_items h]
  obtain out where out:
    "solve_instance tie_solver tie_instance = Inr out"
    "\<forall>sol. output_file out = Some sol \<longrightarrow>
          (\<exists>k v val. 1 \<le> k \<and> k \<le> length (aisles tie_instance)
             \<and> tie_solver (spec_formulation tie_instance k) = Optimal v val
             \<and> sol = (selected_orders_of (length (orders tie_instance)) val,
                      selected_aisles_of (length (aisles tie_instance)) val)
             \<and> (\<forall>k' v' val'. 1 \<le> k' \<and> k' \<le> length (aisles tie_instance)
                    \<and> tie_solver (spec_formulation tie_instance k') = Optimal v' val'
                  \<longrightarrow> v' / real k' \<le> v / real k)
             \<and> (\<forall>k' v' val'. 1 \<le> k' \<and> k' < k
                    \<and> tie_solver (spec_formulation tie_instance k') = Optimal v' val'
                  \<longrightarrow> v' / real k' < v / real k))"
    by blast
  from out(1) have "out = \<lparr> output_file = Some ([0], [0]),
             stdout = [Progress 1 2 2, NewBest 2 1 1, Progress 2 4 2, Concluded 2] \<rparr>"
    unfolding tie_solve_instance by simp
  then have "output_file out = Some ([0], [0])"
    by simp
  with out(2) have "\<exists>k v val. 1 \<le> k \<and> k \<le> length (aisles tie_instance)
         \<and> tie_solver (spec_formulation tie_instance k) = Optimal v val
         \<and> ([0], [0]) = (selected_orders_of (length (orders tie_instance)) val,
                         selected_aisles_of (length (aisles tie_instance)) val)
         \<and> (\<forall>k' v' val'. 1 \<le> k' \<and> k' < k
                \<and> tie_solver (spec_formulation tie_instance k') = Optimal v' val'
              \<longrightarrow> v' / real k' < v / real k)"
    by blast
  with tie_items s tie_solve_instance show ?thesis
    by blast
qed

text \<open>
  C7: on an instance whose item ids are in range, if no optimisation raises and no budget
  \<open>k = 1, ..., n\<close> reports an optimum with a ratio above 0, \<open>solve_instance\<close> of
  \<open>challenge-sbpo-2025/math_solve.py\<close> writes no output file and its last printed line is
  the "no solution found" message. A solver fault, that is an exception raised by an
  optimisation, instead leaves \<open>solve_instance\<close> as an exception, so the two outcomes
  differ.
\<close>

theorem no_solution_reported:
  assumes "items_in_range (n_items inst) (orders inst)" "items_in_range (n_items inst) (aisles inst)"
  shows "((\<forall>k\<in>{1..length (aisles inst)}.
             solve (spec_formulation inst k) \<noteq> Raised
             \<and> (\<forall>v val. solve (spec_formulation inst k) = Optimal v val \<longrightarrow> v / real k \<le> 0))
          \<longrightarrow> (\<exists>ls. solve_instance solve inst = Inr \<lparr> output_file = None, stdout = ls @ [NotFound] \<rparr>))
       \<and> ((\<exists>k\<in>{1..length (aisles inst)}. solve (spec_formulation inst k) = Raised)
          \<longrightarrow> solve_instance solve inst = Inl SolverError)"
proof (intro conjI impI)
  let ?n = "length (aisles inst)"
  let ?M = "spec_formulation inst 1"
  assume h: "\<forall>k\<in>{1..?n}. solve (spec_formulation inst k) \<noteq> Raised
             \<and> (\<forall>v val. solve (spec_formulation inst k) = Optimal v val \<longrightarrow> v / real k \<le> 0)"
  then have "\<forall>k\<in>set [1..<Suc ?n]. solve (set_aisle_limit (int k) ?M) \<noteq> Raised"
    by (auto simp: set_aisle_limit_spec)
  from sweep_gurobi_returns [OF this]
  obtain st where run: "sweep_gurobi solve (length (orders inst)) ?n ?M [1..<Suc ?n] initial_state = Inr st"
    by blast
  have "best_solution st = None"
  proof (rule ccontr)
    assume "best_solution st \<noteq> None"
    with sweep_gurobi_origin [OF run]
    obtain ks1 k ks2 v val where w: "[1..<Suc ?n] = ks1 @ k # ks2"
      "solve (set_aisle_limit (int k) ?M) = Optimal v val" "0 < v / real k"
      by (auto simp: initial_state_def)
    have "k \<in> set [1..<Suc ?n]" using w(1) by simp
    then have "k \<in> {1..?n}" by auto
    with h w(2) have "v / real k \<le> 0"
      by (simp add: set_aisle_limit_spec)
    with w(3) show False by simp
  qed
  with run have "solve_instance solve inst
                   = Inr \<lparr> output_file = None, stdout = printed st @ [NotFound] \<rparr>"
    by (simp add: solve_instance_conv [OF assms])
  then show "\<exists>ls. solve_instance solve inst = Inr \<lparr> output_file = None, stdout = ls @ [NotFound] \<rparr>"
    by blast
next
  let ?n = "length (aisles inst)"
  assume "\<exists>k\<in>{1..?n}. solve (spec_formulation inst k) = Raised"
  then have "\<exists>k\<in>set [1..<Suc ?n]. solve (set_aisle_limit (int k) (spec_formulation inst 1)) = Raised"
    by (auto simp: set_aisle_limit_spec)
  from sweep_gurobi_raises [OF this]
  show "solve_instance solve inst = Inl SolverError"
    by (simp add: solve_instance_conv [OF assms])
qed

theorem no_solution_reported_witness:
  "items_in_range (n_items scenario_D) (orders scenario_D)
   \<and> items_in_range (n_items scenario_D) (aisles scenario_D)
   \<and> infeasible_solver (spec_formulation scenario_D 1) = NotOptimal
   \<and> infeasible_solver (spec_formulation scenario_D 2) = NotOptimal
   \<and> solve_instance infeasible_solver scenario_D
       = Inr \<lparr> output_file = None, stdout = [NoFeasible 1, NoFeasible 2, NotFound] \<rparr>
   \<and> (\<exists>ls. solve_instance infeasible_solver scenario_D
              = Inr \<lparr> output_file = None, stdout = ls @ [NotFound] \<rparr>)
   \<and> solve_instance (\<lambda>m. Raised) scenario_D = Inl SolverError"
proof -
  note t = no_solution_reported [OF scenario_D_items]
  have n: "length (aisles scenario_D) = 2"
    by (simp add: scenario_D_def)
  have "\<forall>k\<in>{1..length (aisles scenario_D)}.
          infeasible_solver (spec_formulation scenario_D k) \<noteq> Raised
          \<and> (\<forall>v val. infeasible_solver (spec_formulation scenario_D k) = Optimal v val
                \<longrightarrow> v / real k \<le> 0)"
    by (simp add: infeasible_solver_def)
  with t [of infeasible_solver]
  have a: "\<exists>ls. solve_instance infeasible_solver scenario_D
              = Inr \<lparr> output_file = None, stdout = ls @ [NotFound] \<rparr>"
    by blast
  have "\<exists>k\<in>{1..length (aisles scenario_D)}. (\<lambda>m. Raised) (spec_formulation scenario_D k) = Raised"
    using n by (intro bexI [of _ 1]) simp_all
  with t [of "\<lambda>m. Raised"]
  have b: "solve_instance (\<lambda>m. Raised) scenario_D = Inl SolverError"
    by blast
  from a b scenario_D_items scenario_D_run show ?thesis
    by (simp add: infeasible_solver_def)
qed

text \<open>
  C9: the loop invariant \<open>sweep_inv\<close> holds after any number of iterations of the sweep
  of either script, started from the initial state: a retained solution has a strictly
  positive best ratio and a non-empty list of selected orders, and every solution that was
  ever announced as new best had a positive ratio, so a budget whose optimum has zero
  units is never retained. The non-emptiness rests on the solver's contract for the
  budgets swept: the values of the \<open>x\<close> variables are 0 or 1 and, for gurobi, the reported
  objective value is the objective at the reported point (pulp computes it so itself).
\<close>

theorem retained_solution_positive:
  assumes "build_model inst ito ita 1 = Inr model"
    and "\<forall>k\<in>set ks. \<forall>v val. solve (set_aisle_limit (int k) model) = Optimal v val
           \<longrightarrow> v = eval_lin val (objective model)
               \<and> (\<forall>j<length (orders inst). val (X j) = 0 \<or> val (X j) = 1)"
    and "\<forall>k\<in>set ks. \<forall>m v val. build_model inst ito ita (int k) = Inr m \<and> solve m = Optimal v val
           \<longrightarrow> (\<forall>j<length (orders inst). val (X j) = 0 \<or> val (X j) = 1)"
  shows "(\<forall>st. sweep_gurobi solve (length (orders inst)) (length (aisles inst)) model ks initial_state
                 = Inr st \<longrightarrow> sweep_inv st)
       \<and> (\<forall>st. sweep_pulp solve inst ito ita ks initial_state = Inr st \<longrightarrow> sweep_inv st)"
proof (intro conjI allI impI)
  fix st
  assume run: "sweep_gurobi solve (length (orders inst)) (length (aisles inst)) model ks initial_state
                 = Inr st"
  have obj: "objective model = units_expr (orders inst)"
    using assms(1) by (rule build_model_objective)
  have "\<forall>k\<in>set ks. \<forall>v val. solve (set_aisle_limit (int k) model) = Optimal v val
             \<longrightarrow> 0 < v \<longrightarrow> selected_orders_of (length (orders inst)) val \<noteq> []"
    using assms(2) selected_orders_nonempty [of _ "orders inst"] unfolding obj by blast
  from sweep_gurobi_inv [OF this sweep_inv_initial run] show "sweep_inv st" .
next
  fix st
  assume run: "sweep_pulp solve inst ito ita ks initial_state = Inr st"
  have "\<forall>k\<in>set ks. \<forall>m v val. build_model inst ito ita (int k) = Inr m \<and> solve m = Optimal v val
             \<longrightarrow> 0 < eval_lin val (objective m)
             \<longrightarrow> selected_orders_of (length (orders inst)) val \<noteq> []"
    using assms(3) selected_orders_nonempty [of _ "orders inst"] build_model_objective
    by metis
  from sweep_pulp_inv [OF this sweep_inv_initial run] show "sweep_inv st" .
qed


theorem retained_solution_positive_witness:
  "build_model tie_instance (index_of (n_items tie_instance) (orders tie_instance))
     (index_of (n_items tie_instance) (aisles tie_instance)) 1
     = Inr (spec_formulation tie_instance 1)
   \<and> sweep_gurobi tie_solver 2 2 (spec_formulation tie_instance 1) [1, 2] initial_state
       = Inr \<lparr> best_ratio = 2, best_solution = Some ([0], [0]),
               printed = [Progress 1 2 2, NewBest 2 1 1, Progress 2 4 2] \<rparr>
   \<and> sweep_pulp tie_solver tie_instance (index_of (n_items tie_instance) (orders tie_instance))
       (index_of (n_items tie_instance) (aisles tie_instance)) [1, 2] initial_state
       = Inr \<lparr> best_ratio = 2, best_solution = Some ([0], [0]),
               printed = [Progress 1 2 2, NewBest 2 1 1, Progress 2 4 2] \<rparr>
   \<and> sweep_inv \<lparr> best_ratio = 2, best_solution = Some ([0], [0]),
                  printed = [Progress 1 2 2, NewBest 2 1 1, Progress 2 4 2] \<rparr>"
proof -
  let ?ito = "index_of (n_items tie_instance) (orders tie_instance)"
  let ?ita = "index_of (n_items tie_instance) (aisles tie_instance)"
  let ?M = "spec_formulation tie_instance 1"
  let ?S = "\<lparr> best_ratio = 2, best_solution = Some ([0], [0]),
               printed = [Progress 1 2 2, NewBest 2 1 1, Progress 2 4 2] \<rparr>"
  have b: "build_model tie_instance ?ito ?ita 1 = Inr ?M"
    using tie_build [of 1] by simp
  have g: "\<forall>k\<in>set [1, 2]. \<forall>v val. tie_solver (set_aisle_limit (int k) ?M) = Optimal v val
           \<longrightarrow> v = eval_lin val (objective ?M)
               \<and> (\<forall>j<length (orders tie_instance). val (X j) = 0 \<or> val (X j) = 1)"
    using indicator_binary
    by (auto simp: set_aisle_limit_spec_nat tie_solver_spec tie_objective indicator_def)
  have p: "\<forall>k\<in>set [1, 2]. \<forall>m v val.
             build_model tie_instance ?ito ?ita (int k) = Inr m \<and> tie_solver m = Optimal v val
           \<longrightarrow> (\<forall>j<length (orders tie_instance). val (X j) = 0 \<or> val (X j) = 1)"
    using indicator_binary
    by (auto simp: tie_build tie_solver_spec split: if_splits)
  have rg: "sweep_gurobi tie_solver (length (orders tie_instance)) (length (aisles tie_instance)) ?M
              [1, 2] initial_state = Inr ?S"
    unfolding tie_lengths by (rule tie_run [unfolded upt_1_3])
  from retained_solution_positive [OF b g p] rg have "sweep_inv ?S"
    by blast
  with b tie_run [unfolded upt_1_3] tie_run_pulp show ?thesis
    by blast
qed

end
